theory Spec2Isabelle
  imports Complex_Main "HOL-Library.Log_Nat"
begin

section \<open>Configuration constants of whack_a_zombie.py\<close>

definition SPAWN_MIN_MS :: int where
  "SPAWN_MIN_MS = 800"

definition SPAWN_MAX_MS :: int where
  "SPAWN_MAX_MS = 1500"

definition SPAWN_POINTS :: "(int \<times> int) list" where
  "SPAWN_POINTS =
     [(150, 160), (300, 140), (450, 170), (600, 150),
      (750, 170), (220, 320), (420, 300), (620, 330),
      (780, 310), (320, 480), (500, 470), (700, 500)]"

definition ZOMBIE_BASE_RADIUS :: int where
  "ZOMBIE_BASE_RADIUS = 48"

definition SPAWN_ANIM_MS :: int where
  "SPAWN_ANIM_MS = 180"

definition DESPAWN_ANIM_MS :: int where
  "DESPAWN_ANIM_MS = 220"

section \<open>The random module\<close>

text \<open>
  The two calls into Python's \<open>random\<close> module are functions of the raw draw \<open>r\<close> that the
  generator supplies: \<open>random.randint(a, b)\<close> is \<open>a + randbelow(b - a + 1)\<close> and
  \<open>random.choice(seq)\<close> is \<open>seq[randbelow(len(seq))]\<close>, where \<open>randbelow(n)\<close> is some
  number below \<open>n\<close>, here \<open>r mod n\<close>. The program calls them on its constants only, for
  which the range and the list are not empty, so neither call raises.
\<close>

definition randint :: "int \<Rightarrow> int \<Rightarrow> nat \<Rightarrow> int" where
  "randint a b r = a + int (r mod nat (b - a + 1))"

definition choice :: "'a list \<Rightarrow> nat \<Rightarrow> 'a" where
  "choice xs r = xs ! (r mod length xs)"

text \<open>
  The share of the draws below \<open>n\<close> on which \<open>f\<close> returns \<open>v\<close>: the probability of \<open>v\<close> when
  the generator's draw is uniform below \<open>n\<close>.
\<close>

definition draw_share :: "(nat \<Rightarrow> 'a) \<Rightarrow> nat \<Rightarrow> 'a \<Rightarrow> real" where
  "draw_share f n v = real (length (filter (\<lambda>r. f r = v) [0..<n])) / real n"

section \<open>class Zombie\<close>

datatype zstate = Spawning | Alive | Despawning | Dead

text \<open>
  The fields \<open>self.x\<close> and \<open>self.y\<close> are \<open>zx\<close> and \<open>zy\<close>; the others keep their names.
  Timestamps are the integer milliseconds of \<open>pygame.time.get_ticks()\<close>.
\<close>

record Zombie =
  zx :: int
  zy :: int
  radius :: int
  spawn_time :: int
  lifetime_ms :: int
  state :: zstate
  hit_registered :: bool
  state_time :: int

text \<open>
  \<open>Zombie.__init__(pos)\<close>: \<open>ticks\<close> is what \<open>pygame.time.get_ticks()\<close> returns inside the
  constructor, \<open>r\<close> the draw behind \<open>random.randint(SPAWN_MIN_MS, SPAWN_MAX_MS)\<close>.
\<close>

definition new_Zombie :: "int \<times> int \<Rightarrow> int \<Rightarrow> nat \<Rightarrow> Zombie" where
  "new_Zombie pos ticks r =
     \<lparr> zx = fst pos, zy = snd pos,
       radius = ZOMBIE_BASE_RADIUS,
       spawn_time = ticks,
       lifetime_ms = randint SPAWN_MIN_MS SPAWN_MAX_MS r,
       state = Spawning,
       hit_registered = False,
       state_time = ticks \<rparr>"

definition update :: "int \<Rightarrow> Zombie \<Rightarrow> Zombie" where
  "update now z =
     (if state z = Spawning then
        (if now - state_time z \<ge> SPAWN_ANIM_MS
         then z\<lparr>state := Alive, state_time := now\<rparr> else z)
      else if state z = Alive then
        (if now - spawn_time z \<ge> lifetime_ms z
         then z\<lparr>state := Despawning, state_time := now\<rparr> else z)
      else if state z = Despawning then
        (if now - state_time z \<ge> DESPAWN_ANIM_MS
         then z\<lparr>state := Dead\<rparr> else z)
      else z)"

definition is_clickable :: "Zombie \<Rightarrow> bool" where
  "is_clickable z \<longleftrightarrow> (state z = Spawning \<or> state z = Alive) \<and> \<not> hit_registered z"

text \<open>
  \<open>hit_test\<close> compares an integer (the squared distance of two integer pixel positions)
  with the float \<open>(self.radius * 0.95) ** 2\<close>. The float arithmetic is taken as exact
  arithmetic on the reals.
\<close>

definition hit_test :: "Zombie \<Rightarrow> int \<times> int \<Rightarrow> bool" where
  "hit_test z pos \<longleftrightarrow>
     (let mx = fst pos; my = snd pos in
      real_of_int ((mx - zx z) ^ 2 + (my - zy z) ^ 2) \<le> (real_of_int (radius z) * 0.95) ^ 2)"

text \<open>
  \<open>register_hit()\<close>: \<open>ticks\<close> is what \<open>pygame.time.get_ticks()\<close> returns inside the method.
\<close>

definition register_hit :: "int \<Rightarrow> Zombie \<Rightarrow> Zombie" where
  "register_hit ticks z = z\<lparr>hit_registered := True, state := Despawning, state_time := ticks\<rparr>"

section \<open>The main loop\<close>

datatype key = K_ESCAPE | K_m | K_other

datatype event = QUIT | KEYDOWN key | MOUSEBUTTONDOWN int "int \<times> int" | OTHER_EVENT

text \<open>The local variables of \<open>main\<close> that the loop reads and writes.\<close>

record game =
  hits :: int
  misses :: int
  zombie :: "Zombie option"
  next_spawn_time :: int
  running :: bool
  is_muted :: bool
  sound_supported :: bool

definition init_game :: "bool \<Rightarrow> game" where
  "init_game snd_ok =
     \<lparr> hits = 0, misses = 0, zombie = None, next_spawn_time = 0,
       running = True, is_muted = False, sound_supported = snd_ok \<rparr>"

text \<open>
  What one iteration of the loop receives from outside: the clock value read at the top
  of the iteration, the drained event queue (each event with the value the clock would
  return while that event is handled, which \<open>register_hit\<close> reads), the value the clock
  returns inside the \<open>Zombie\<close> constructor, and the three random draws.
\<close>

record frame_input =
  in_now :: int
  in_events :: "(event \<times> int) list"
  in_ctor_ticks :: int
  in_rand_pos :: nat
  in_rand_life :: nat
  in_rand_gap :: nat

text \<open>
  The body of \<open>for event in pygame.event.get()\<close>. Playing the hit sound changes no
  variable of the loop (a failure to play is caught and dropped), so it is not in the
  model.
\<close>

definition handle_event :: "game \<Rightarrow> event \<times> int \<Rightarrow> game" where
  "handle_event g et =
     (case fst et of
        QUIT \<Rightarrow> g\<lparr>running := False\<rparr>
      | KEYDOWN k \<Rightarrow>
          (if k = K_ESCAPE then g\<lparr>running := False\<rparr>
           else if k = K_m \<and> sound_supported g then g\<lparr>is_muted := \<not> is_muted g\<rparr>
           else g)
      | MOUSEBUTTONDOWN button pos \<Rightarrow>
          (if button = 1 then
             (case zombie g of
                None \<Rightarrow> g
              | Some z \<Rightarrow>
                  (if is_clickable z \<and> hit_test z pos
                   then g\<lparr>zombie := Some (register_hit (snd et) z), hits := hits g + 1\<rparr>
                   else if state z = Spawning \<or> state z = Alive
                   then g\<lparr>misses := misses g + 1\<rparr>
                   else g))
           else g)
      | OTHER_EVENT \<Rightarrow> g)"

definition handle_events :: "game \<Rightarrow> (event \<times> int) list \<Rightarrow> game" where
  "handle_events g evs = foldl handle_event g evs"

definition spawn_step :: "frame_input \<Rightarrow> game \<Rightarrow> game" where
  "spawn_step inp g =
     (if zombie g = None \<and> in_now inp \<ge> next_spawn_time g
      then g\<lparr>zombie := Some (new_Zombie (choice SPAWN_POINTS (in_rand_pos inp))
                                        (in_ctor_ticks inp) (in_rand_life inp))\<rparr>
      else g)"

definition update_step :: "frame_input \<Rightarrow> game \<Rightarrow> game" where
  "update_step inp g =
     (case zombie g of
        None \<Rightarrow> g
      | Some z \<Rightarrow>
          (let z' = update (in_now inp) z in
           if state z' = Dead
           then g\<lparr>zombie := None,
                  next_spawn_time := in_now inp + randint 220 520 (in_rand_gap inp)\<rparr>
           else g\<lparr>zombie := Some z'\<rparr>))"

definition frame :: "frame_input \<Rightarrow> game \<Rightarrow> game" where
  "frame inp g = update_step inp (spawn_step inp (handle_events g (in_events inp)))"

text \<open>
  \<open>while running\<close>: the iterations the loop makes on a finite prefix of its inputs. The
  flag is tested at the top only, so an iteration that clears it still runs to its end.
\<close>

fun run :: "game \<Rightarrow> frame_input list \<Rightarrow> game" where
  "run g [] = g"
| "run g (inp # inps) = (if running g then run (frame inp g) inps else g)"

section \<open>Float arithmetic of the HUD\<close>

text \<open>
  Python's \<open>float\<close> is the IEEE 754 double: an operation returns its exact result
  rounded to the nearest double, ties to the even significand. \<open>ilog2 x\<close> is the
  binary exponent of a positive rational, the \<open>e\<close> with \<open>2\<^sup>e \<le> x < 2\<^sup>e\<^sup>+\<^sup>1\<close>, from the bit
  lengths of numerator and denominator. \<open>round_double x\<close> is the double nearest to \<open>x\<close>:
  53 significant bits, with the spacing of the least normal exponent -1022 below it.
  Overflow is not in the model: the values rounded here are at most 100.
\<close>

definition ilog2 :: "rat \<Rightarrow> int" where
  "ilog2 x =
     (let (p, q) = quotient_of x; e = bitlen p - bitlen q
      in if 2 powi e \<le> x then e else e - 1)"

definition round_half_even :: "rat \<Rightarrow> int" where
  "round_half_even y =
     (let f = \<lfloor>y\<rfloor>; d = y - of_int f
      in if d < 1 / 2 then f else if 1 / 2 < d then f + 1
         else if even f then f else f + 1)"

definition round_double :: "rat \<Rightarrow> rat" where
  "round_double x =
     (if x = 0 then 0
      else let u = 2 powi (max (ilog2 \<bar>x\<bar>) (- 1022) - 52)
           in sgn x * of_int (round_half_even (\<bar>x\<bar> / u)) * u)"

text \<open>
  The HUD's \<open>acc = (hits / total * 100.0) if total > 0 else 0.0\<close>. The division of two
  Python integers is their quotient rounded to a double, the product with \<open>100.0\<close> is
  rounded again.
\<close>

definition accuracy :: "int \<Rightarrow> int \<Rightarrow> rat" where
  "accuracy h m =
     (let total = h + m in
      if total > 0 then round_double (round_double (of_int h / of_int total) * 100) else 0)"

text \<open>
  The number that \<open>f"{acc:.1f}"\<close> prints: the value rounded to one decimal, ties to even.
\<close>

definition hud_accuracy :: "rat \<Rightarrow> rat" where
  "hud_accuracy acc = of_int (round_half_even (acc * 10)) / 10"

section \<open>Sequences of calls on one entity\<close>

datatype zop = Update int | RegisterHit int

fun apply_op :: "zop \<Rightarrow> Zombie \<Rightarrow> Zombie" where
  "apply_op (Update now) z = update now z"
| "apply_op (RegisterHit ticks) z = register_hit ticks z"

fun apply_ops :: "zop list \<Rightarrow> Zombie \<Rightarrow> Zombie" where
  "apply_ops [] z = z"
| "apply_ops (op # ops) z = apply_ops ops (apply_op op z)"

text \<open>The position of a state in the order Spawning, Alive, Despawning, Dead.\<close>

fun rank :: "zstate \<Rightarrow> nat" where
  "rank Spawning = 0"
| "rank Alive = 1"
| "rank Despawning = 2"
| "rank Dead = 3"

section \<open>Predicates used by the statements\<close>

text \<open>
  A sequence of calls within the life of an entity: \<open>register_hit\<close> is never made on
  an entity that has already reached Dead, the end of its life.
\<close>

fun no_hit_on_dead :: "zop list \<Rightarrow> Zombie \<Rightarrow> bool" where
  "no_hit_on_dead [] z = True"
| "no_hit_on_dead (Update now # ops) z = no_hit_on_dead ops (update now z)"
| "no_hit_on_dead (RegisterHit ticks # ops) z =
     (state z \<noteq> Dead \<and> no_hit_on_dead ops (register_hit ticks z))"

text \<open>The slot of the loop is empty or holds an entity that is not Dead.\<close>

definition slot_live :: "game \<Rightarrow> bool" where
  "slot_live g =
     (case zombie g of
        None \<Rightarrow> True
      | Some z \<Rightarrow> state z = Spawning \<or> state z = Alive \<or> state z = Despawning)"

text \<open>
  An entity, and a game, with the two stored timestamps of the entity blanked: what
  remains is everything but \<open>spawn_time\<close> and \<open>state_time\<close>.
\<close>

definition forget_times :: "Zombie \<Rightarrow> Zombie" where
  "forget_times z = z\<lparr>spawn_time := 0, state_time := 0\<rparr>"

definition forget_game_times :: "game \<Rightarrow> game" where
  "forget_game_times g = g\<lparr>zombie := map_option forget_times (zombie g)\<rparr>"

text \<open>
  Two inputs of an iteration that agree on the clock value read at its top, on the
  events of the queue and on the random draws; they may differ in the clock values read
  later in the iteration.
\<close>

definition same_but_clock :: "frame_input \<Rightarrow> frame_input \<Rightarrow> bool" where
  "same_but_clock a b \<longleftrightarrow>
     in_now a = in_now b \<and> map fst (in_events a) = map fst (in_events b)
     \<and> in_rand_pos a = in_rand_pos b \<and> in_rand_life a = in_rand_life b
     \<and> in_rand_gap a = in_rand_gap b"

text \<open>The clock values read later in an iteration are not before the one read at its top.\<close>

definition clock_not_back :: "frame_input \<Rightarrow> bool" where
  "clock_not_back a \<longleftrightarrow>
     in_now a \<le> in_ctor_ticks a \<and> list_all (\<lambda>et. in_now a \<le> snd et) (in_events a)"

text \<open>
  An entity that entered Spawning or Despawning at a clock value not before \<open>now\<close>, and
  two games that are equal or differ only in the timestamps of such an entity.
\<close>

definition stamped_after :: "int \<Rightarrow> Zombie \<Rightarrow> bool" where
  "stamped_after now z \<longleftrightarrow> (state z = Spawning \<or> state z = Despawning) \<and> now \<le> state_time z"

definition clock_twins :: "int \<Rightarrow> game \<Rightarrow> game \<Rightarrow> bool" where
  "clock_twins now ga gb \<longleftrightarrow>
     ga = gb
     \<or> (forget_game_times ga = forget_game_times gb
        \<and> (case (zombie ga, zombie gb) of
             (Some za, Some zb) \<Rightarrow> stamped_after now za \<and> stamped_after now zb
           | _ \<Rightarrow> False))"

section \<open>Concrete inputs\<close>

text \<open>
  An entity at the first spawn point, created at clock value 0 with the draw 200, that
  is, with a lifetime of 1000 ms, and a game that owns it.
\<close>

definition z_demo :: Zombie where
  "z_demo = new_Zombie (150, 160) 0 200"

definition g_demo :: game where
  "g_demo = (init_game False)\<lparr>zombie := Some z_demo\<rparr>"

text \<open>
  The same entity after a hit at clock value 50, a game that owns it, and an iteration
  at clock value \<open>t\<close> with an empty event queue (the draws 0, 200 and 0).
\<close>

definition g_hit :: game where
  "g_hit = (init_game False)\<lparr>zombie := Some (register_hit 50 z_demo), hits := 1\<rparr>"

definition quiet_frame :: "int \<Rightarrow> frame_input" where
  "quiet_frame t =
     \<lparr> in_now = t, in_events = [], in_ctor_ticks = t,
       in_rand_pos = 0, in_rand_life = 200, in_rand_gap = 0 \<rparr>"

text \<open>
  That entity as it is after the update at 180 (Alive) and after the update at 1000
  (Despawning), and a game that owns the latter.
\<close>

definition z_alive :: Zombie where
  "z_alive = z_demo\<lparr>state := Alive, state_time := 180\<rparr>"

definition z_dying :: Zombie where
  "z_dying = z_demo\<lparr>state := Despawning, state_time := 1000\<rparr>"

definition g_dying :: game where
  "g_dying = (init_game False)\<lparr>zombie := Some z_dying\<rparr>"

text \<open>
  The iteration at 0 whose constructor reads the clock at 5, and an iteration at 50
  with one click on the centre of the entity, handled when the clock reads 57.
\<close>

definition late_ctor_frame :: frame_input where
  "late_ctor_frame = (quiet_frame 0)\<lparr>in_ctor_ticks := 5\<rparr>"

definition click_frame :: frame_input where
  "click_frame = (quiet_frame 50)\<lparr>in_events := [(MOUSEBUTTONDOWN 1 (150, 160), 57)]\<rparr>"

section \<open>Scoring of a click\<close>

lemma handle_event_click:
  "handle_event g (MOUSEBUTTONDOWN 1 pos, c) =
     (case zombie g of
        None \<Rightarrow> g
      | Some z \<Rightarrow>
          (if is_clickable z \<and> hit_test z pos
           then g\<lparr>zombie := Some (register_hit c z), hits := hits g + 1\<rparr>
           else if state z = Spawning \<or> state z = Alive
           then g\<lparr>misses := misses g + 1\<rparr>
           else g))"
  by (simp add: handle_event_def split: option.split)

text \<open>
  Claim C1. A primary-button click handled while an entity is owned: when the entity is
  clickable and the click is inside the hitbox, \<open>register_hit\<close> runs on the entity and
  \<open>hits\<close> grows by exactly one (\<open>misses\<close> stays); otherwise, when the entity is Spawning
  or Alive, \<open>misses\<close> grows by exactly one (\<open>hits\<close> and the entity stay); a click while no
  entity is owned, or while the owned one is Despawning, changes nothing at all.
\<close>

theorem click_scoring:
  "(zombie g = Some z \<and> is_clickable z \<and> hit_test z pos \<longrightarrow>
      handle_event g (MOUSEBUTTONDOWN 1 pos, c)
        = g\<lparr>zombie := Some (register_hit c z), hits := hits g + 1\<rparr>
      \<and> hits (handle_event g (MOUSEBUTTONDOWN 1 pos, c)) = hits g + 1
      \<and> misses (handle_event g (MOUSEBUTTONDOWN 1 pos, c)) = misses g)
   \<and> (zombie g = Some z \<and> \<not> (is_clickable z \<and> hit_test z pos)
        \<and> (state z = Spawning \<or> state z = Alive) \<longrightarrow>
      handle_event g (MOUSEBUTTONDOWN 1 pos, c) = g\<lparr>misses := misses g + 1\<rparr>
      \<and> hits (handle_event g (MOUSEBUTTONDOWN 1 pos, c)) = hits g
      \<and> misses (handle_event g (MOUSEBUTTONDOWN 1 pos, c)) = misses g + 1)
   \<and> (zombie g = None \<or> (zombie g = Some z \<and> state z = Despawning) \<longrightarrow>
      handle_event g (MOUSEBUTTONDOWN 1 pos, c) = g)"
  by (auto simp: handle_event_click is_clickable_def)

theorem click_scoring_witness:
  "hits (handle_event g_demo (MOUSEBUTTONDOWN 1 (150, 205), 7)) = 1
   \<and> misses (handle_event g_demo (MOUSEBUTTONDOWN 1 (150, 205), 7)) = 0
   \<and> hits (handle_event g_demo (MOUSEBUTTONDOWN 1 (150, 206), 7)) = 0
   \<and> misses (handle_event g_demo (MOUSEBUTTONDOWN 1 (150, 206), 7)) = 1
   \<and> handle_event (init_game False) (MOUSEBUTTONDOWN 1 (150, 160), 7) = init_game False"
  using click_scoring [of g_demo z_demo "(150, 205)" 7]
        click_scoring [of g_demo z_demo "(150, 206)" 7]
        click_scoring [of "init_game False" z_demo "(150, 160)" 7]
  by (simp add: g_demo_def z_demo_def init_game_def new_Zombie_def hit_test_def
        is_clickable_def ZOMBIE_BASE_RADIUS_def power2_eq_square)

section \<open>The order of the states\<close>

lemma rank_update: "rank (state z) \<le> rank (state (update now z))"
  by (cases "state z") (simp_all add: update_def)

lemma rank_register_hit: "state z \<noteq> Dead \<Longrightarrow> rank (state z) \<le> rank (state (register_hit c z))"
  by (cases "state z") (simp_all add: register_hit_def)

lemma apply_ops_append: "apply_ops (ops1 @ ops2) z = apply_ops ops2 (apply_ops ops1 z)"
  by (induction ops1 arbitrary: z) simp_all

lemma no_hit_on_dead_append:
  "no_hit_on_dead (ops1 @ ops2) z \<longleftrightarrow>
     no_hit_on_dead ops1 z \<and> no_hit_on_dead ops2 (apply_ops ops1 z)"
proof (induction ops1 arbitrary: z)
  case Nil
  show ?case by simp
next
  case (Cons op ops1)
  then show ?case by (cases op) simp_all
qed

lemma rank_apply_ops:
  "no_hit_on_dead ops z \<Longrightarrow> rank (state z) \<le> rank (state (apply_ops ops z))"
proof (induction ops arbitrary: z)
  case Nil
  show ?case by simp
next
  case (Cons op ops)
  show ?case
  proof (cases op)
    case (Update now)
    with Cons.prems have "no_hit_on_dead ops (update now z)" by simp
    from Cons.IH [OF this] rank_update [of z now] Update show ?thesis by simp
  next
    case (RegisterHit c)
    with Cons.prems have live: "state z \<noteq> Dead" and rest: "no_hit_on_dead ops (register_hit c z)"
      by simp_all
    from Cons.IH [OF rest] rank_register_hit [OF live, of c] RegisterHit show ?thesis by simp
  qed
qed

lemma dead_only_from_despawning:
  "state (apply_op op z) = Dead \<Longrightarrow> state z \<noteq> Dead \<Longrightarrow> state z = Despawning"
  by (cases op; cases "state z") (simp_all add: update_def register_hit_def split: if_splits)

section \<open>The clickable gate\<close>

lemma hit_registered_update: "hit_registered (update now z) = hit_registered z"
  by (simp add: update_def)

lemma hit_registered_apply_ops:
  "hit_registered z \<Longrightarrow> hit_registered (apply_ops ops z)"
proof (induction ops arbitrary: z)
  case Nil
  then show ?case by simp
next
  case (Cons op ops)
  then show ?case
    by (cases op) (simp_all add: hit_registered_update register_hit_def)
qed

lemma handle_event_step:
  "(hits (handle_event g et) = hits g \<and> zombie (handle_event g et) = zombie g)
   \<or> (\<exists>z. zombie g = Some z \<and> is_clickable z \<and> hits (handle_event g et) = hits g + 1
          \<and> misses (handle_event g et) = misses g
          \<and> zombie (handle_event g et) = Some (register_hit (snd et) z))"
  by (auto simp: handle_event_def split: event.split option.split)

lemma handle_event_not_clickable:
  "zombie g = Some z \<Longrightarrow> \<not> is_clickable z \<Longrightarrow>
     hits (handle_event g et) = hits g \<and> zombie (handle_event g et) = Some z"
  by (auto simp: handle_event_def split: event.split option.split)

lemma handle_event_None:
  "zombie g = None \<Longrightarrow>
     hits (handle_event g et) = hits g \<and> misses (handle_event g et) = misses g
     \<and> zombie (handle_event g et) = None
     \<and> next_spawn_time (handle_event g et) = next_spawn_time g"
  by (auto simp: handle_event_def split: event.split option.split)

lemma handle_events_not_clickable:
  "zombie g = Some z \<Longrightarrow> \<not> is_clickable z \<Longrightarrow>
     hits (handle_events g evs) = hits g \<and> zombie (handle_events g evs) = Some z"
  unfolding handle_events_def
proof (induction evs arbitrary: g)
  case Nil
  then show ?case by simp
next
  case (Cons et evs)
  from handle_event_not_clickable [OF Cons.prems]
  have a: "hits (handle_event g et) = hits g" and b: "zombie (handle_event g et) = Some z"
    by simp_all
  from Cons.IH [OF b Cons.prems(2)] a show ?case by simp
qed

lemma handle_events_None:
  "zombie g = None \<Longrightarrow>
     hits (handle_events g evs) = hits g \<and> misses (handle_events g evs) = misses g
     \<and> zombie (handle_events g evs) = None
     \<and> next_spawn_time (handle_events g evs) = next_spawn_time g"
  unfolding handle_events_def
proof (induction evs arbitrary: g)
  case Nil
  then show ?case by simp
next
  case (Cons et evs)
  from handle_event_None [OF Cons.prems, of et] Cons.IH [of "handle_event g et"]
  show ?case by simp
qed

lemma not_clickable_register_hit: "\<not> is_clickable (register_hit c z)"
  by (simp add: is_clickable_def register_hit_def)

lemma handle_events_hits_le: "hits (handle_events g evs) \<le> hits g + 1"
proof (induction evs arbitrary: g)
  case Nil
  show ?case by (simp add: handle_events_def)
next
  case (Cons et evs)
  have unf: "handle_events g (et # evs) = handle_events (handle_event g et) evs"
    by (simp add: handle_events_def)
  from handle_event_step [of g et] show ?case
  proof
    assume "hits (handle_event g et) = hits g \<and> zombie (handle_event g et) = zombie g"
    with Cons.IH [of "handle_event g et"] unf show ?thesis by simp
  next
    assume "\<exists>z. zombie g = Some z \<and> is_clickable z \<and> hits (handle_event g et) = hits g + 1
          \<and> misses (handle_event g et) = misses g
          \<and> zombie (handle_event g et) = Some (register_hit (snd et) z)"
    then obtain z where h: "hits (handle_event g et) = hits g + 1"
      and zz: "zombie (handle_event g et) = Some (register_hit (snd et) z)" by blast
    from handle_events_not_clickable [OF zz not_clickable_register_hit, of evs] h unf
    show ?thesis by simp
  qed
qed

lemma frame_hit_registered:
  assumes "zombie g = Some z" and "hit_registered z"
  shows "hits (frame inp g) = hits g
    \<and> (case zombie (frame inp g) of None \<Rightarrow> True | Some z' \<Rightarrow> hit_registered z')"
proof -
  from assms(2) have nc: "\<not> is_clickable z" by (simp add: is_clickable_def)
  from handle_events_not_clickable [OF assms(1) nc, of "in_events inp"]
  have a: "hits (handle_events g (in_events inp)) = hits g"
    and b: "zombie (handle_events g (in_events inp)) = Some z" by simp_all
  from b have c: "spawn_step inp (handle_events g (in_events inp)) = handle_events g (in_events inp)"
    by (simp add: spawn_step_def)
  show ?thesis
    using a b assms(2)
    by (simp add: frame_def c update_step_def Let_def hit_registered_update)
qed

text \<open>
  Claim C4. \<open>is_clickable\<close> holds exactly when the state is Spawning or Alive and
  \<open>hit_registered\<close> is false; after \<open>register_hit\<close> it is false and stays false under
  every later sequence of \<open>update\<close> and \<open>register_hit\<close> calls; the events of one
  iteration raise \<open>hits\<close> by at most one; and while the loop owns an entity that was hit,
  an iteration leaves \<open>hits\<close> as it is and the slot holds that hit entity or nothing.
\<close>

theorem clickable_gate:
  "(is_clickable z \<longleftrightarrow> (state z = Spawning \<or> state z = Alive) \<and> \<not> hit_registered z)
   \<and> \<not> is_clickable (apply_ops ops (register_hit c z))
   \<and> hits (handle_events g evs) \<le> hits g + 1
   \<and> (zombie g = Some z \<and> hit_registered z \<longrightarrow>
        hits (frame inp g) = hits g
        \<and> (case zombie (frame inp g) of None \<Rightarrow> True | Some z' \<Rightarrow> hit_registered z'))"
proof -
  have "hit_registered (apply_ops ops (register_hit c z))"
    by (rule hit_registered_apply_ops) (simp add: register_hit_def)
  then have "\<not> is_clickable (apply_ops ops (register_hit c z))"
    by (simp add: is_clickable_def)
  then show ?thesis
    using handle_events_hits_le [of g evs] frame_hit_registered [of g z inp]
    by (simp add: is_clickable_def)
qed

theorem clickable_gate_witness:
  "is_clickable z_demo
   \<and> \<not> is_clickable (apply_ops [Update 300, RegisterHit 310] (register_hit 50 z_demo))
   \<and> hits (handle_events g_demo
        [(MOUSEBUTTONDOWN 1 (150, 160), 50), (MOUSEBUTTONDOWN 1 (151, 160), 51)]) \<le> 1
   \<and> hits (frame ((quiet_frame 60)\<lparr>in_events := [(MOUSEBUTTONDOWN 1 (150, 160), 60)]\<rparr>) g_hit) = 1"
  using clickable_gate [of z_demo "[Update 300, RegisterHit 310]" 50 g_demo
          "[(MOUSEBUTTONDOWN 1 (150, 160), 50), (MOUSEBUTTONDOWN 1 (151, 160), 51)]"
          "quiet_frame 60"]
        clickable_gate [of "register_hit 50 z_demo" "[]" 50 g_hit "[]"
          "(quiet_frame 60)\<lparr>in_events := [(MOUSEBUTTONDOWN 1 (150, 160), 60)]\<rparr>"]
  by (simp add: g_demo_def g_hit_def z_demo_def init_game_def new_Zombie_def register_hit_def)

section \<open>The entity slot\<close>

lemma update_step_live: "slot_live (update_step inp g)"
  by (cases "state (update (in_now inp) (the (zombie g)))")
     (auto simp: slot_live_def update_step_def Let_def split: option.split)

lemma slot_live_frame: "slot_live (frame inp g)"
  by (simp add: frame_def update_step_live)

lemma slot_live_run: "slot_live g \<Longrightarrow> slot_live (run g inps)"
  by (induction inps arbitrary: g) (simp_all add: slot_live_frame)

lemma frame_releases_dead:
  "zombie (spawn_step inp (handle_events g (in_events inp))) = Some z \<Longrightarrow>
   state (update (in_now inp) z) = Dead \<Longrightarrow> 
   zombie (frame inp g) = None
   \<and> next_spawn_time (frame inp g) = in_now inp + randint 220 520 (in_rand_gap inp)"
  by (simp add: frame_def update_step_def Let_def)

lemma state_update_new_Zombie:
  "state (update now (new_Zombie p c r)) \<noteq> Dead"
  by (simp add: update_def new_Zombie_def)

lemma frame_from_empty:
  assumes "zombie g = None"
  shows "zombie (frame inp g) =
     (if next_spawn_time g \<le> in_now inp
      then Some (update (in_now inp)
             (new_Zombie (choice SPAWN_POINTS (in_rand_pos inp)) (in_ctor_ticks inp) (in_rand_life inp)))
      else None)"
proof -
  from handle_events_None [OF assms, of "in_events inp"]
  have a: "zombie (handle_events g (in_events inp)) = None"
    and b: "next_spawn_time (handle_events g (in_events inp)) = next_spawn_time g"
    by simp_all
  show ?thesis
    using a b state_update_new_Zombie
    by (simp add: frame_def spawn_step_def update_step_def Let_def)
qed

text \<open>
  Claim C2. The loop has one slot for an entity, so it owns at most one. After every
  iteration, from any state, the slot is empty or holds an entity that is Spawning, Alive
  or Despawning, and so it is after any number of iterations from the start; an entity
  that \<open>update\<close> drives to Dead is released in that iteration (the slot is empty after
  it); and an iteration that starts with an empty slot ends with an empty slot or with
  a newly constructed entity, never with a released one.
\<close>

theorem single_entity_slot:
  "slot_live (frame inp g)
   \<and> slot_live (run (init_game so) inps)
   \<and> (zombie (spawn_step inp (handle_events g (in_events inp))) = Some z
        \<and> state (update (in_now inp) z) = Dead \<longrightarrow> zombie (frame inp g) = None)
   \<and> (zombie g = None \<longrightarrow>
        zombie (frame inp g) = None
        \<or> zombie (frame inp g) = Some (update (in_now inp)
             (new_Zombie (choice SPAWN_POINTS (in_rand_pos inp)) (in_ctor_ticks inp) (in_rand_life inp))))"
proof -
  have "slot_live (init_game so)" by (simp add: slot_live_def init_game_def)
  then have "slot_live (run (init_game so) inps)" by (rule slot_live_run)
  then show ?thesis
    using slot_live_frame [of inp g] frame_releases_dead [of inp g z] frame_from_empty [of g inp]
    by simp
qed

theorem single_entity_slot_witness:
  "zombie (frame (quiet_frame 1220) g_dying) = None
   \<and> slot_live (frame (quiet_frame 1220) g_dying)
   \<and> slot_live (run (init_game False) [quiet_frame 0, quiet_frame 180])
   \<and> zombie (frame (quiet_frame 0) (init_game False)) = Some z_demo"
  using single_entity_slot [of "quiet_frame 1220" g_dying False "[quiet_frame 0, quiet_frame 180]" z_dying]
        single_entity_slot [of "quiet_frame 0" "init_game False" False "[]" z_dying]
  by (simp add: quiet_frame_def g_dying_def z_dying_def z_demo_def init_game_def new_Zombie_def
        frame_def update_step_def Let_def
        handle_events_def spawn_step_def update_def DESPAWN_ANIM_MS_def SPAWN_ANIM_MS_def
        choice_def SPAWN_POINTS_def)

section \<open>The first iteration\<close>

text \<open>
  Claim C10. \<open>next_spawn_time\<close> starts at 0, so when the clock value is not negative the
  first iteration of the loop creates the first entity: after it the slot holds the
  entity just constructed (advanced by that iteration's \<open>update\<close>), whatever the event
  queue, the draws and the clock value inside the constructor are.
\<close>

theorem first_frame_spawns:
  assumes "0 \<le> in_now inp"
  shows "zombie (frame inp (init_game so)) =
           Some (update (in_now inp)
             (new_Zombie (choice SPAWN_POINTS (in_rand_pos inp)) (in_ctor_ticks inp) (in_rand_life inp)))
    \<and> zombie (run (init_game so) (inp # inps)) = zombie (run (frame inp (init_game so)) inps)
    \<and> zombie (run (init_game so) [inp]) \<noteq> None"
proof -
  have e: "zombie (init_game so) = None" and n: "next_spawn_time (init_game so) = 0"
    and r: "running (init_game so)"
    by (simp_all add: init_game_def)
  from frame_from_empty [OF e, of inp] n assms
  have "zombie (frame inp (init_game so)) =
           Some (update (in_now inp)
             (new_Zombie (choice SPAWN_POINTS (in_rand_pos inp)) (in_ctor_ticks inp) (in_rand_life inp)))"
    by simp
  then show ?thesis using r by simp
qed

theorem first_frame_spawns_witness:
  "0 \<le> in_now (quiet_frame 0)
   \<and> zombie (frame (quiet_frame 0) (init_game False)) = Some z_demo
   \<and> zombie (run (init_game False) [quiet_frame 0]) \<noteq> None"
  using first_frame_spawns [of "quiet_frame 0" False "[]"]
  by (simp add: quiet_frame_def z_demo_def new_Zombie_def update_def SPAWN_ANIM_MS_def
        choice_def SPAWN_POINTS_def)

section \<open>Counters and accuracy\<close>

lemma handle_event_mono:
  "hits g \<le> hits (handle_event g et) \<and> misses g \<le> misses (handle_event g et)"
  by (auto simp: handle_event_def split: event.split option.split)

lemma handle_events_mono:
  "hits g \<le> hits (handle_events g evs) \<and> misses g \<le> misses (handle_events g evs)"
  unfolding handle_events_def
proof (induction evs arbitrary: g)
  case Nil
  show ?case by simp
next
  case (Cons et evs)
  from handle_event_mono [of g et] Cons.IH [of "handle_event g et"]
  show ?case by simp
qed

lemma spawn_step_counters:
  "hits (spawn_step inp g) = hits g \<and> misses (spawn_step inp g) = misses g"
  by (simp add: spawn_step_def)

lemma update_step_counters:
  "hits (update_step inp g) = hits g \<and> misses (update_step inp g) = misses g"
  by (simp add: update_step_def Let_def split: option.split)

lemma frame_counters:
  "hits (frame inp g) = hits (handle_events g (in_events inp))
   \<and> misses (frame inp g) = misses (handle_events g (in_events inp))"
  by (simp add: frame_def update_step_counters spawn_step_counters)

lemma frame_mono:
  "hits g \<le> hits (frame inp g) \<and> misses g \<le> misses (frame inp g)"
  using handle_events_mono [of g "in_events inp"] by (simp add: frame_counters)

lemma run_mono:
  "hits g \<le> hits (run g inps) \<and> misses g \<le> misses (run g inps)"
proof (induction inps arbitrary: g)
  case Nil
  show ?case by simp
next
  case (Cons inp inps)
  from frame_mono [of g inp] Cons.IH [of "frame inp g"]
  show ?case by auto
qed

lemma quotient_of_pos:
  assumes "0 < x" and "quotient_of x = (p, q)"
  shows "0 < p \<and> 0 < q \<and> x = of_int p / of_int q"
proof -
  from assms(2) have q: "0 < q" by (rule quotient_of_denom_pos)
  from assms(2) have x: "x = of_int p / of_int q" by (rule quotient_of_div)
  with assms(1) q have "0 < (of_int p :: rat)" by (simp add: zero_less_divide_iff)
  then have "0 < p" by simp
  with q x show ?thesis by simp
qed

lemma bitlen_powi:
  assumes "0 < p"
  shows "(2::rat) powi (bitlen p - 1) \<le> of_int p \<and> (of_int p :: rat) < 2 powi (bitlen p)"
proof -
  from bitlen_bounds [OF assms]
  have a: "2 ^ nat (bitlen p - 1) \<le> p" and b: "p < 2 ^ nat (bitlen p)" by simp_all
  from assms have "bitlen p \<noteq> 0" by (simp add: bitlen_eq_zero_iff)
  with bitlen_nonneg [of p] have c: "1 \<le> bitlen p" by simp
  from a have "(of_int (2 ^ nat (bitlen p - 1)) :: rat) \<le> of_int p" by (simp only: of_int_le_iff)
  then have a': "(2::rat) ^ nat (bitlen p - 1) \<le> of_int p" by simp
  from b have "(of_int p :: rat) < of_int (2 ^ nat (bitlen p))" by (simp only: of_int_less_iff)
  then have b': "(of_int p :: rat) < 2 ^ nat (bitlen p)" by simp
  from c have "(2::rat) powi (bitlen p - 1) = 2 ^ nat (bitlen p - 1)"
    and "(2::rat) powi (bitlen p) = 2 ^ nat (bitlen p)"
    by (simp_all add: power_int_nonneg_exp)
  with a' b' show ?thesis by simp
qed

lemma powi2_add: "(2::rat) powi (a + b) = 2 powi a * 2 powi b"
  by (rule power_int_add) simp

lemma ilog2_bounds:
  assumes "0 < x"
  shows "2 powi (ilog2 x) \<le> x \<and> x < 2 powi (ilog2 x + 1)"
proof -
  obtain p q where pq: "quotient_of x = (p, q)" by (cases "quotient_of x")
  from quotient_of_pos [OF assms pq]
  have p: "0 < p" and q: "0 < q" and x: "x = of_int p / of_int q" by simp_all
  from q have Q: "0 < (of_int q :: rat)" by simp
  let ?e = "bitlen p - bitlen q"
  from bitlen_powi [OF p]
  have pl: "(2::rat) powi (bitlen p - 1) \<le> of_int p" and pu: "(of_int p :: rat) < 2 powi bitlen p"
    by simp_all
  from bitlen_powi [OF q]
  have ql: "(2::rat) powi (bitlen q - 1) \<le> of_int q" and qu: "(of_int q :: rat) < 2 powi bitlen q"
    by simp_all
  have lower: "2 powi (?e - 1) < x"
  proof -
    have "(2::rat) powi (?e - 1) * of_int q < 2 powi (?e - 1) * 2 powi bitlen q"
      using qu by (simp add: mult_strict_left_mono)
    also have "\<dots> = 2 powi ((?e - 1) + bitlen q)" by (simp only: powi2_add)
    also have "(?e - 1) + bitlen q = bitlen p - 1" by simp
    finally have "(2::rat) powi (?e - 1) * of_int q < of_int p" using pl by simp
    with Q show ?thesis unfolding x by (simp add: pos_less_divide_eq)
  qed
  have upper: "x < 2 powi (?e + 1)"
  proof -
    have "(2::rat) powi (?e + 1) * 2 powi (bitlen q - 1) \<le> 2 powi (?e + 1) * of_int q"
      using ql by (simp add: mult_left_mono)
    moreover have "(2::rat) powi (?e + 1) * 2 powi (bitlen q - 1) = 2 powi ((?e + 1) + (bitlen q - 1))"
      by (simp only: powi2_add)
    moreover have "(?e + 1) + (bitlen q - 1) = bitlen p" by simp
    ultimately have "(2::rat) powi bitlen p \<le> 2 powi (?e + 1) * of_int q" by simp
    with pu have "(of_int p :: rat) < 2 powi (?e + 1) * of_int q" by simp
    with Q show ?thesis unfolding x by (simp add: pos_divide_less_eq)
  qed
  show ?thesis
  proof (cases "2 powi ?e \<le> x")
    case True
    then have "ilog2 x = ?e" by (simp add: ilog2_def pq)
    with True upper show ?thesis by simp
  next
    case False
    then have "ilog2 x = ?e - 1" by (simp add: ilog2_def pq)
    with False lower show ?thesis by simp
  qed
qed

lemma round_half_even_err: "\<bar>of_int (round_half_even y) - y\<bar> \<le> 1 / 2"
proof -
  have "of_int \<lfloor>y\<rfloor> \<le> y" and "y < of_int \<lfloor>y\<rfloor> + 1" by linarith+
  then show ?thesis
    unfolding round_half_even_def Let_def by (auto simp: abs_le_iff)
qed

lemma round_double_err:
  assumes "2 powi (- 1022) \<le> x"
  shows "\<bar>round_double x - x\<bar> \<le> x / 2 ^ 53"
proof -
  have "(0::rat) < 2 powi (- 1022)" by (rule zero_less_power_int) simp
  with assms have x0: "0 < x" by linarith
  let ?E = "ilog2 x"
  from ilog2_bounds [OF x0] have lo: "2 powi ?E \<le> x" and hi: "x < 2 powi (?E + 1)" by simp_all
  have E: "- 1022 \<le> ?E"
  proof (rule ccontr)
    assume "\<not> - 1022 \<le> ?E"
    then have "?E + 1 \<le> - 1022" by simp
    then have "(2::rat) powi (?E + 1) \<le> 2 powi (- 1022)" by (rule power_int_increasing) simp
    with assms hi show False by linarith
  qed
  let ?u = "(2::rat) powi (?E - 52)"
  have u0: "0 < ?u" by (rule zero_less_power_int) simp
  have u: "?u * 2 ^ 52 = 2 powi ?E"
  proof -
    have "(2::rat) powi ((?E - 52) + 52) = 2 powi (?E - 52) * 2 powi 52" by (rule powi2_add)
    then show ?thesis by simp
  qed
  from E x0 have r: "round_double x = of_int (round_half_even (x / ?u)) * ?u"
    by (simp add: round_double_def Let_def max_def)
  have "round_double x - x = (of_int (round_half_even (x / ?u)) - x / ?u) * ?u"
    using u0 by (simp add: r algebra_simps)
  then have "\<bar>round_double x - x\<bar> = \<bar>of_int (round_half_even (x / ?u)) - x / ?u\<bar> * ?u"
    using u0 by (simp add: abs_mult)
  also have "\<dots> \<le> 1 / 2 * ?u"
    using round_half_even_err [of "x / ?u"] u0 by (simp add: mult_right_mono)
  finally have a: "\<bar>round_double x - x\<bar> \<le> ?u / 2" by simp
  from lo u have "?u * 2 ^ 52 \<le> x" by simp
  then have "?u / 2 * 2 ^ 53 \<le> x" by simp
  then have "?u / 2 \<le> x / 2 ^ 53" by (simp add: pos_le_divide_eq)
  with a show ?thesis by linarith
qed

lemma accuracy_err:
  assumes h: "0 < h" and m: "0 \<le> m" and b: "h + m \<le> 2 ^ 1022"
  shows "\<bar>accuracy h m - 100 * of_int h / of_int (h + m)\<bar>
           \<le> 100 * of_int h / of_int (h + m) / 2 ^ 51"
proof -
  let ?t = "h + m"
  define x :: rat where "x = of_int h / of_int ?t"
  from h m have t0: "0 < ?t" by simp
  then have T0: "0 < (of_int ?t :: rat)" by (simp only: of_int_0_less_iff)
  from b have "(of_int ?t :: rat) \<le> of_int (2 ^ 1022)" by (simp only: of_int_le_iff)
  then have T1: "(of_int ?t :: rat) \<le> 2 ^ 1022" by simp
  from h have H1: "(1::rat) \<le> of_int h" by simp
  have p: "(2::rat) powi (- 1022) = 1 / 2 ^ 1022"
    by (simp add: power_int_minus_divide)
  have "1 / 2 ^ 1022 \<le> 1 / (of_int ?t :: rat)"
    using T0 T1 by (intro divide_left_mono) simp_all
  also have "\<dots> \<le> x" unfolding x_def using H1 T0 by (intro divide_right_mono) simp_all
  finally have xlo: "2 powi (- 1022) \<le> x" by (simp only: p)
  have "(0::rat) < 2 powi (- 1022)" by (rule zero_less_power_int) simp
  with xlo have x0: "0 < x" by linarith
  define c :: rat where "c = 2 ^ 53"
  define d where "d = x / c"
  define y where "y = round_double x"
  define z where "z = round_double (y * 100)"
  have c0: "0 < c" and c1: "1 \<le> c" by (simp_all add: c_def)
  from x0 have "0 \<le> x" by simp
  then have d0: "0 \<le> d" unfolding d_def using c0 by (rule divide_nonneg_pos)
  have xd: "x = c * d" using c0 by (simp add: d_def)
  have "d * 2 \<le> d * c" using d0 by (intro mult_left_mono) (simp_all add: c_def)
  with xd have dx: "2 * d \<le> x" by (simp add: mult.commute)
  from round_double_err [OF xlo] have ey: "\<bar>y - x\<bar> \<le> d" by (simp add: y_def d_def c_def)
  from ey dx d0 have ylo: "x \<le> y * 100" by linarith
  with xlo have "2 powi (- 1022) \<le> y * 100" by linarith
  from round_double_err [OF this] have ez: "\<bar>z - y * 100\<bar> \<le> y * 100 / c"
    by (simp add: z_def c_def)
  from ey have yu: "y \<le> c * d + d" unfolding xd by linarith
  have "y * 100 / c \<le> (c * d + d) * 100 / c"
    using yu c0 by (intro divide_right_mono mult_right_mono) simp_all
  also have "\<dots> = 100 * d + 100 * (d / c)" using c0 by (simp add: field_simps)
  also have "\<dots> \<le> 100 * d + 100 * d"
  proof -
    have "d / c \<le> d / 1" using d0 c1 c0 by (intro divide_left_mono) simp_all
    then show ?thesis by simp
  qed
  finally have "y * 100 / c \<le> 200 * d" by simp
  with ez ey have e: "\<bar>z - 100 * x\<bar> \<le> 300 * d" by linarith
  have "x / 2 ^ 51 = 4 * d" unfolding d_def c_def by simp
  then have f: "100 * x / 2 ^ 51 = 400 * d" by simp
  have g: "accuracy h m = z" using t0 by (simp add: accuracy_def Let_def z_def y_def x_def)
  have "\<bar>accuracy h m - 100 * x\<bar> \<le> 100 * x / 2 ^ 51"
    unfolding g f using e d0 by linarith
  then show ?thesis by (simp add: x_def)
qed

lemma accuracy_no_hits: "accuracy 0 m = 0"
  by (simp add: accuracy_def Let_def round_double_def)

lemma accuracy_no_clicks: "h + m = 0 \<Longrightarrow> accuracy h m = 0"
  by (simp add: accuracy_def Let_def)

lemma round_double_1_100: "round_double 1 = 1 \<and> round_double 100 = 100"
  by code_simp

lemma accuracy_all_hits: "0 < h \<Longrightarrow> accuracy h 0 = 100"
  by (simp add: accuracy_def round_double_1_100)

text \<open>
  Claim C8, as stated, fails: the accuracy is computed in doubles. With 23 hits and 57
  misses the quotient 23/80 is not a double, and the HUD's value is
  \<open>28.749999999999996\<close>, not \<open>28.75\<close>; printed with one decimal it is 28.7, where 28.75
  would print as 28.8. With 1 hit and 2 misses it is not \<open>100/3\<close>.
\<close>

theorem accuracy_counterexample:
  "accuracy 23 57 = 8092405580431359 / 2 ^ 48
   \<and> accuracy 23 57 \<noteq> 100 * 23 / (23 + 57)
   \<and> hud_accuracy (accuracy 23 57) = 287 / 10
   \<and> hud_accuracy (100 * 23 / (23 + 57)) = 288 / 10
   \<and> accuracy 1 2 \<noteq> 100 * 1 / (1 + 2)"
  by code_simp

text \<open>
  Claim C8, amended. For non-negative \<open>hits\<close> and \<open>misses\<close> (up to \<open>2\<^sup>1\<^sup>0\<^sup>2\<^sup>2\<close> in sum) the
  accuracy of the HUD is 0 when their sum is 0, and otherwise the double
  \<open>hits / (hits + misses) * 100.0\<close>: the quotient rounded to a double, times 100, rounded
  again. It differs from \<open>100 * hits / (hits + misses)\<close> by at most that value over
  \<open>2\<^sup>5\<^sup>1\<close>; it is exactly 0 when \<open>hits\<close> is 0 and exactly 100 when \<open>misses\<close> is 0. Neither
  counter ever decreases, in one iteration or over any number of iterations, and from
  the start both stay non-negative.
\<close>

theorem accuracy_and_counters:
  assumes "0 \<le> h" and "0 \<le> m" and "h + m \<le> 2 ^ 1022"
  shows "accuracy h m =
           (if h + m = 0 then 0
            else round_double (round_double (of_int h / of_int (h + m)) * 100))
    \<and> \<bar>accuracy h m - (if h + m = 0 then 0 else 100 * of_int h / of_int (h + m))\<bar>
         \<le> (if h + m = 0 then 0 else 100 * of_int h / of_int (h + m) / 2 ^ 51)
    \<and> (h = 0 \<longrightarrow> accuracy h m = 0)
    \<and> (0 < h \<and> m = 0 \<longrightarrow> accuracy h m = 100)
    \<and> hits g \<le> hits (frame inp g) \<and> misses g \<le> misses (frame inp g)
    \<and> hits g \<le> hits (run g inps) \<and> misses g \<le> misses (run g inps)
    \<and> 0 \<le> hits (run (init_game so) inps) \<and> 0 \<le> misses (run (init_game so) inps)"
proof -
  from assms(1,2) have a: "accuracy h m =
           (if h + m = 0 then 0
            else round_double (round_double (of_int h / of_int (h + m)) * 100))"
    by (simp add: accuracy_def Let_def)
  have b: "\<bar>accuracy h m - (if h + m = 0 then 0 else 100 * of_int h / of_int (h + m))\<bar>
         \<le> (if h + m = 0 then 0 else 100 * of_int h / of_int (h + m) / 2 ^ 51)"
  proof (cases "h = 0")
    case True
    then show ?thesis by (simp add: accuracy_no_hits)
  next
    case False
    with assms(1) have "0 < h" by simp
    from accuracy_err [OF this assms(2,3)] \<open>0 < h\<close> assms(2) show ?thesis by simp
  qed
  have c: "h = 0 \<longrightarrow> accuracy h m = 0" by (simp add: accuracy_no_hits)
  have d: "0 < h \<and> m = 0 \<longrightarrow> accuracy h m = 100" using accuracy_all_hits by blast
  have e: "0 \<le> hits (run (init_game so) inps) \<and> 0 \<le> misses (run (init_game so) inps)"
    using run_mono [of "init_game so" inps] by (simp add: init_game_def)
  from a b c d e frame_mono [of g inp] run_mono [of g inps] show ?thesis by blast
qed

theorem accuracy_and_counters_witness:
  "accuracy 3 1 = 75 \<and> accuracy 0 0 = 0 \<and> accuracy 0 4 = 0 \<and> accuracy 5 0 = 100
   \<and> \<bar>accuracy 23 57 - 100 * 23 / 80\<bar> \<le> 100 * 23 / 80 / 2 ^ 51
   \<and> hits g_demo \<le> hits (run g_demo [quiet_frame 10])"
proof -
  have r: "round_double (round_double (3 / 4) * 100) = 75" by code_simp
  have p1: "(0::int) \<le> 3" "(0::int) \<le> 1" "(3::int) + 1 \<le> 2 ^ 1022" by simp_all
  have p2: "(0::int) \<le> 0" "(0::int) \<le> 4" "(0::int) + 4 \<le> 2 ^ 1022" by simp_all
  have p3: "(0::int) \<le> 5" "(0::int) \<le> 0" "(5::int) + 0 \<le> 2 ^ 1022" by simp_all
  have p4: "(0::int) \<le> 23" "(0::int) \<le> 57" "(23::int) + 57 \<le> 2 ^ 1022" by simp_all
  have p5: "(0::int) \<le> 0" "(0::int) \<le> 0" "(0::int) + 0 \<le> 2 ^ 1022" by simp_all
  from accuracy_and_counters [OF p1, THEN conjunct1] r
  have a: "accuracy 3 1 = 75" by simp
  from accuracy_and_counters [OF p5, THEN conjunct1]
  have b: "accuracy 0 0 = 0" by simp
  from accuracy_and_counters [OF p2, THEN conjunct2, THEN conjunct2, THEN conjunct1]
  have c: "accuracy 0 4 = 0" by simp
  from accuracy_and_counters [OF p3, THEN conjunct2, THEN conjunct2, THEN conjunct2, THEN conjunct1]
  have d: "accuracy 5 0 = 100" by simp
  from accuracy_and_counters [OF p4, THEN conjunct2, THEN conjunct1]
  have e: "\<bar>accuracy 23 57 - 100 * 23 / 80\<bar> \<le> 100 * 23 / 80 / 2 ^ 51" by simp
  from accuracy_and_counters [OF p4, of g_demo "quiet_frame 10" "[quiet_frame 10]" False]
  have f: "hits g_demo \<le> hits (run g_demo [quiet_frame 10])" by blast
  from a b c d e f show ?thesis by blast
qed

section \<open>The hitbox\<close>

lemma hit_test_sqrt:
  assumes "0 \<le> radius z"
  shows "hit_test z p \<longleftrightarrow>
    sqrt (real_of_int ((fst p - zx z) ^ 2 + (snd p - zy z) ^ 2)) \<le> real_of_int (radius z) * 0.95"
proof -
  let ?d2 = "real_of_int ((fst p - zx z) ^ 2 + (snd p - zy z) ^ 2)"
  let ?b = "real_of_int (radius z) * 0.95"
  from assms have b: "0 \<le> ?b" by simp
  then have "sqrt (?b ^ 2) = ?b" by simp
  then have "sqrt ?d2 \<le> ?b \<longleftrightarrow> sqrt ?d2 \<le> sqrt (?b ^ 2)" by simp
  also have "\<dots> \<longleftrightarrow> ?d2 \<le> ?b ^ 2" by (rule real_sqrt_le_iff)
  finally show ?thesis by (simp add: hit_test_def Let_def)
qed

text \<open>
  At the base radius the bound \<open>(48 * 0.95)\<^sup>2 = 2079.36\<close> lies strictly between two
  integers, and the squared distance is an integer: the test is \<open>d\<^sup>2 \<le> 2079\<close>, which
  the rounding of the float product cannot change.
\<close>

lemma hit_test_base_radius:
  assumes "radius z = ZOMBIE_BASE_RADIUS"
  shows "hit_test z p \<longleftrightarrow> (fst p - zx z) ^ 2 + (snd p - zy z) ^ 2 \<le> 2079"
proof -
  let ?n = "(fst p - zx z) ^ 2 + (snd p - zy z) ^ 2"
  have t: "(real_of_int ZOMBIE_BASE_RADIUS * 0.95) ^ 2 = 51984 / 25"
    by (simp add: ZOMBIE_BASE_RADIUS_def power2_eq_square)
  have k: "real_of_int ?n \<le> 51984 / 25 \<longleftrightarrow> ?n \<le> 2079"
  proof
    assume "real_of_int ?n \<le> 51984 / 25"
    then have "real_of_int ?n < real_of_int 2080" by simp
    then have "?n < 2080" by (simp only: of_int_less_iff)
    then show "?n \<le> 2079" by simp
  next
    assume "?n \<le> 2079"
    then have "real_of_int ?n \<le> real_of_int 2079" by (simp only: of_int_le_iff)
    then show "real_of_int ?n \<le> 51984 / 25" by simp
  qed
  have "hit_test z p \<longleftrightarrow> real_of_int ?n \<le> (real_of_int (radius z) * 0.95) ^ 2"
    by (simp only: hit_test_def Let_def)
  also have "\<dots> \<longleftrightarrow> real_of_int ?n \<le> 51984 / 25"
    by (simp only: assms t)
  also note k
  finally show ?thesis .
qed

lemma geometry_update:
  "zx (update now z) = zx z \<and> zy (update now z) = zy z \<and> radius (update now z) = radius z"
  by (simp add: update_def)

lemma geometry_apply_ops:
  "zx (apply_ops ops z) = zx z \<and> zy (apply_ops ops z) = zy z
   \<and> radius (apply_ops ops z) = radius z"
proof (induction ops arbitrary: z)
  case Nil
  show ?case by simp
next
  case (Cons op ops)
  show ?case
    by (cases op) (simp_all add: Cons.IH geometry_update register_hit_def)
qed

lemma hit_test_geometry:
  "zx z' = zx z \<Longrightarrow> zy z' = zy z \<Longrightarrow> radius z' = radius z \<Longrightarrow> hit_test z' p = hit_test z p"
  by (simp add: hit_test_def)

text \<open>
  Claim C5. For an entity whose radius is not negative (the constructor sets it to the
  base radius 48, and no method changes it), \<open>hit_test\<close> holds exactly when the
  Euclidean distance from the point to the entity's position is at most
  \<open>radius * 0.95\<close>; two entities with the same position and radius give the same result
  at the same point, so the result is the same after any sequence of \<open>update\<close> and
  \<open>register_hit\<close> calls, whatever the state and the timestamps are.
\<close>

theorem hit_test_circle:
  assumes "0 \<le> radius z"
  shows "(hit_test z p \<longleftrightarrow>
      sqrt (real_of_int ((fst p - zx z) ^ 2 + (snd p - zy z) ^ 2))
        \<le> real_of_int (radius z) * 0.95)
    \<and> (zx z' = zx z \<and> zy z' = zy z \<and> radius z' = radius z \<longrightarrow> hit_test z' p = hit_test z p)
    \<and> hit_test (apply_ops ops z) p = hit_test z p
    \<and> radius (apply_ops ops (new_Zombie pos c r)) = ZOMBIE_BASE_RADIUS"
proof -
  have "hit_test (apply_ops ops z) p = hit_test z p"
    by (rule hit_test_geometry) (simp_all add: geometry_apply_ops)
  moreover have "radius (apply_ops ops (new_Zombie pos c r)) = ZOMBIE_BASE_RADIUS"
    by (simp add: geometry_apply_ops new_Zombie_def)
  ultimately show ?thesis
    using hit_test_sqrt [OF assms, of p] hit_test_geometry [of z' z p] by simp
qed

theorem hit_test_circle_witness:
  "0 \<le> radius z_demo
   \<and> hit_test z_demo (150, 205) \<and> \<not> hit_test z_demo (150, 206)
   \<and> sqrt (real_of_int ((fst (150, 205) - zx z_demo) ^ 2 + (snd (150, 205) - zy z_demo) ^ 2))
        \<le> real_of_int (radius z_demo) * 0.95
   \<and> hit_test (apply_ops [Update 180, RegisterHit 200] z_demo) (150, 205)"
proof -
  have r: "0 \<le> radius z_demo"
    by (simp add: z_demo_def new_Zombie_def ZOMBIE_BASE_RADIUS_def)
  have a: "hit_test z_demo (150, 205)" and b: "\<not> hit_test z_demo (150, 206)"
    by (simp_all add: hit_test_def z_demo_def new_Zombie_def ZOMBIE_BASE_RADIUS_def power2_eq_square)
  show ?thesis
    using r a b hit_test_circle [OF r, of "(150, 205)" z_demo "[Update 180, RegisterHit 200]"]
    by simp
qed

section \<open>An entity that is never clicked\<close>

lemma z_demo_fields:
  "z_demo = \<lparr> zx = 150, zy = 160, radius = 48, spawn_time = 0, lifetime_ms = 1000,
      state = Spawning, hit_registered = False, state_time = 0 \<rparr>"
  by (simp add: z_demo_def new_Zombie_def randint_def SPAWN_MIN_MS_def SPAWN_MAX_MS_def
        ZOMBIE_BASE_RADIUS_def)

lemma quiet_frame_0: "frame (quiet_frame 0) (init_game so) = (init_game so)\<lparr>zombie := Some z_demo\<rparr>"
  by (simp add: frame_def handle_events_def spawn_step_def update_step_def Let_def
        quiet_frame_def init_game_def z_demo_def update_def new_Zombie_def choice_def
        SPAWN_POINTS_def SPAWN_ANIM_MS_def)

lemma quiet_frame_owned:
  "zombie g = Some z \<Longrightarrow> frame (quiet_frame t) g =
     (if state (update t z) = Dead
      then g\<lparr>zombie := None, next_spawn_time := t + 220\<rparr>
      else g\<lparr>zombie := Some (update t z)\<rparr>)"
  by (simp add: frame_def handle_events_def spawn_step_def update_step_def Let_def
        quiet_frame_def randint_def)

lemma update_z_demo:
  "update t z_demo = (if 180 \<le> t then z_demo\<lparr>state := Alive, state_time := t\<rparr> else z_demo)"
  by (simp add: z_demo_fields update_def SPAWN_ANIM_MS_def)

lemma update_alive:
  "update t (z_demo\<lparr>state := Alive, state_time := s\<rparr>) =
     (if 1000 \<le> t then z_demo\<lparr>state := Despawning, state_time := t\<rparr>
      else z_demo\<lparr>state := Alive, state_time := s\<rparr>)"
  by (simp add: z_demo_fields update_def)

lemma update_z_dying:
  "update t z_dying = (if 1220 \<le> t then z_dying\<lparr>state := Dead\<rparr> else z_dying)"
  by (simp add: z_dying_def z_demo_fields update_def DESPAWN_ANIM_MS_def)

lemma z_demo_sel:
  "state z_demo = Spawning" "spawn_time z_demo = 0" "lifetime_ms z_demo = 1000"
  "state z_dying = Despawning"
  by (simp_all add: z_demo_fields z_dying_def)

lemma running_init: "running (init_game so)"
  by (simp add: init_game_def)

lemma run_0_179:
  "run (init_game so) [quiet_frame 0, quiet_frame 179] = (init_game so)\<lparr>zombie := Some z_demo\<rparr>"
  by (simp add: running_init quiet_frame_0 quiet_frame_owned update_z_demo z_demo_sel)

lemma run_0_180:
  "run (init_game so) [quiet_frame 0, quiet_frame 180] = (init_game so)\<lparr>zombie := Some z_alive\<rparr>"
  by (simp add: running_init quiet_frame_0 quiet_frame_owned update_z_demo z_demo_sel z_alive_def)

lemma run_from_alive:
  "run ((init_game so)\<lparr>zombie := Some z_alive\<rparr>) [quiet_frame 999]
     = (init_game so)\<lparr>zombie := Some z_alive\<rparr>
   \<and> run ((init_game so)\<lparr>zombie := Some z_alive\<rparr>) [quiet_frame 1000]
     = (init_game so)\<lparr>zombie := Some z_dying\<rparr>"
  by (simp add: running_init quiet_frame_owned z_alive_def z_dying_def update_alive)

lemma run_from_dying:
  "run ((init_game so)\<lparr>zombie := Some z_dying\<rparr>) [quiet_frame 1219]
     = (init_game so)\<lparr>zombie := Some z_dying\<rparr>
   \<and> run ((init_game so)\<lparr>zombie := Some z_dying\<rparr>) [quiet_frame 1220]
     = (init_game so)\<lparr>next_spawn_time := 1440\<rparr>"
  by (simp add: quiet_frame_owned update_z_dying z_demo_sel init_game_def)

lemma run_stopped: "\<not> running g \<Longrightarrow> run g inps = g"
  by (cases inps) simp_all

lemma run_append: "run g (xs @ ys) = run (run g xs) ys"
  by (induction xs arbitrary: g) (simp_all add: run_stopped)

text \<open>
  Claim C6. The entity created at clock value 0 with a lifetime of 1000 ms and never
  clicked: \<open>update\<close> at \<open>t\<close> makes it Alive exactly when \<open>t\<close> has reached 180; once Alive,
  whenever that state was entered, it becomes Despawning exactly when \<open>t\<close> has reached
  1000, the lifetime counted from the spawn time; Despawning since 1000, it becomes Dead
  exactly when \<open>t\<close> has reached 1220. Run through the loop with empty event queues, the
  entity is Spawning at 179, Alive at 999, Despawning at 1219 and released at 1220, and
  \<open>hits\<close> and \<open>misses\<close> are still 0.
\<close>

theorem natural_expiry_scenario:
  "spawn_time z_demo = 0 \<and> lifetime_ms z_demo = 1000 \<and> state z_demo = Spawning
   \<and> update t z_demo = (if 180 \<le> t then z_demo\<lparr>state := Alive, state_time := t\<rparr> else z_demo)
   \<and> update t (z_demo\<lparr>state := Alive, state_time := s\<rparr>) =
       (if 1000 \<le> t then z_demo\<lparr>state := Despawning, state_time := t\<rparr>
        else z_demo\<lparr>state := Alive, state_time := s\<rparr>)
   \<and> update t z_dying = (if 1220 \<le> t then z_dying\<lparr>state := Dead\<rparr> else z_dying)
   \<and> run (init_game so) [quiet_frame 0, quiet_frame 179]
       = (init_game so)\<lparr>zombie := Some z_demo\<rparr>
   \<and> run (init_game so) [quiet_frame 0, quiet_frame 180, quiet_frame 999]
       = (init_game so)\<lparr>zombie := Some z_alive\<rparr>
   \<and> run (init_game so) [quiet_frame 0, quiet_frame 180, quiet_frame 1000, quiet_frame 1219]
       = (init_game so)\<lparr>zombie := Some z_dying\<rparr>
   \<and> run (init_game so) [quiet_frame 0, quiet_frame 180, quiet_frame 1000, quiet_frame 1220]
       = (init_game so)\<lparr>next_spawn_time := 1440\<rparr>"
proof -
  have "run (init_game so) ([quiet_frame 0, quiet_frame 180] @ [quiet_frame 999])
       = (init_game so)\<lparr>zombie := Some z_alive\<rparr>"
    by (simp only: run_append run_0_180 run_from_alive)
  then have a: "run (init_game so) [quiet_frame 0, quiet_frame 180, quiet_frame 999]
       = (init_game so)\<lparr>zombie := Some z_alive\<rparr>"
    by (simp only: append.simps)
  have b: "run (init_game so) ([quiet_frame 0, quiet_frame 180] @ [quiet_frame 1000])
       = (init_game so)\<lparr>zombie := Some z_dying\<rparr>"
    by (simp only: run_append run_0_180 run_from_alive)
  have "run (init_game so) (([quiet_frame 0, quiet_frame 180] @ [quiet_frame 1000]) @ [quiet_frame 1219])
       = (init_game so)\<lparr>zombie := Some z_dying\<rparr>"
    by (simp only: run_append [of _ "_ @ _"] b run_from_dying)
  then have c: "run (init_game so) [quiet_frame 0, quiet_frame 180, quiet_frame 1000, quiet_frame 1219]
       = (init_game so)\<lparr>zombie := Some z_dying\<rparr>"
    by (simp only: append.simps)
  have "run (init_game so) (([quiet_frame 0, quiet_frame 180] @ [quiet_frame 1000]) @ [quiet_frame 1220])
       = (init_game so)\<lparr>next_spawn_time := 1440\<rparr>"
    by (simp only: run_append [of _ "_ @ _"] b run_from_dying)
  then have d: "run (init_game so) [quiet_frame 0, quiet_frame 180, quiet_frame 1000, quiet_frame 1220]
       = (init_game so)\<lparr>next_spawn_time := 1440\<rparr>"
    by (simp only: append.simps)
  have e: "spawn_time z_demo = 0 \<and> lifetime_ms z_demo = 1000 \<and> state z_demo = Spawning"
    by (simp add: z_demo_fields)
  from e update_z_demo [of t] update_alive [of t s] update_z_dying [of t] run_0_179 [of so] a c d
  show ?thesis by blast
qed

theorem natural_expiry_scenario_witness:
  "update 179 z_demo = z_demo \<and> update 180 z_demo = z_alive
   \<and> update 999 z_alive = z_alive \<and> update 1000 z_alive = z_dying
   \<and> update 1219 z_dying = z_dying \<and> state (update 1220 z_dying) = Dead
   \<and> hits (run (init_game False)
        [quiet_frame 0, quiet_frame 180, quiet_frame 1000, quiet_frame 1220]) = 0
   \<and> misses (run (init_game False)
        [quiet_frame 0, quiet_frame 180, quiet_frame 1000, quiet_frame 1220]) = 0
   \<and> zombie (run (init_game False)
        [quiet_frame 0, quiet_frame 180, quiet_frame 1000, quiet_frame 1220]) = None"
  using natural_expiry_scenario [of 179 180 False] natural_expiry_scenario [of 180 180 False]
        natural_expiry_scenario [of 999 180 False] natural_expiry_scenario [of 1000 180 False]
        natural_expiry_scenario [of 1219 180 False] natural_expiry_scenario [of 1220 180 False]
  by (simp add: z_alive_def z_dying_def init_game_def)

section \<open>Spawning and release\<close>

lemma randint_bounds: "a \<le> b \<Longrightarrow> a \<le> randint a b r \<and> randint a b r \<le> b"
proof -
  assume ab: "a \<le> b"
  then have "0 < nat (b - a + 1)" by simp
  then have "r mod nat (b - a + 1) < nat (b - a + 1)" by (rule mod_less_divisor)
  then have "int (r mod nat (b - a + 1)) < b - a + 1" using ab by linarith
  then show ?thesis by (simp add: randint_def)
qed

lemma randint_small: "a \<le> b \<Longrightarrow> r < nat (b - a + 1) \<Longrightarrow> randint a b r = a + int r"
  by (simp add: randint_def)

lemma randint_range: "a \<le> b \<Longrightarrow> range (randint a b) = {a..b}"
proof (rule set_eqI, rule iffI)
  fix v assume ab: "a \<le> b" and "v \<in> range (randint a b)"
  then obtain r where "v = randint a b r" by blast
  with randint_bounds [OF ab, of r] show "v \<in> {a..b}" by simp
next
  fix v assume ab: "a \<le> b" and v: "v \<in> {a..b}"
  then have "nat (v - a) < nat (b - a + 1)" by simp
  from randint_small [OF ab this] v have "randint a b (nat (v - a)) = v" by simp
  then show "v \<in> range (randint a b)" by (metis rangeI)
qed

lemma randint_inj: "a \<le> b \<Longrightarrow> inj_on (randint a b) {..<nat (b - a + 1)}"
  by (rule inj_onI) (simp add: randint_small)

lemma choice_mem: "xs \<noteq> [] \<Longrightarrow> choice xs r \<in> set xs"
  by (simp add: choice_def)

lemma choice_range: "xs \<noteq> [] \<Longrightarrow> range (choice xs) = set xs"
proof (rule set_eqI, rule iffI)
  fix v assume "xs \<noteq> []" and "v \<in> range (choice xs)"
  then show "v \<in> set xs" using choice_mem by blast
next
  fix v assume ne: "xs \<noteq> []" and "v \<in> set xs"
  then obtain i where i: "i < length xs" and "xs ! i = v" by (auto simp: in_set_conv_nth)
  then have "choice xs i = v" by (simp add: choice_def)
  then show "v \<in> range (choice xs)" by (metis rangeI)
qed

lemma choice_inj: "distinct xs \<Longrightarrow> inj_on (choice xs) {..<length xs}"
  by (rule inj_onI) (simp add: choice_def nth_eq_iff_index_eq)

lemma SPAWN_POINTS_distinct: "distinct SPAWN_POINTS \<and> length SPAWN_POINTS = 12"
  by (simp add: SPAWN_POINTS_def)

lemma SPAWN_POINTS_nonempty: "SPAWN_POINTS \<noteq> []"
  by (simp add: SPAWN_POINTS_def)

lemma handle_event_owned: "zombie g \<noteq> None \<Longrightarrow> zombie (handle_event g et) \<noteq> None"
  using handle_event_step [of g et] by auto

lemma handle_events_owned: "zombie g \<noteq> None \<Longrightarrow> zombie (handle_events g evs) \<noteq> None"
  unfolding handle_events_def
proof (induction evs arbitrary: g)
  case Nil
  then show ?case by simp
next
  case (Cons et evs)
  from Cons.prems have "zombie (handle_event g et) \<noteq> None" by (rule handle_event_owned)
  from Cons.IH [OF this] show ?case by simp
qed

lemma spawn_step_zombie:
  "zombie (spawn_step inp g) =
     (if zombie g = None \<and> next_spawn_time g \<le> in_now inp
      then Some (new_Zombie (choice SPAWN_POINTS (in_rand_pos inp)) (in_ctor_ticks inp)
                   (in_rand_life inp))
      else zombie g)"
  by (simp add: spawn_step_def)

lemma new_Zombie_lifetime:
  "lifetime_ms (new_Zombie p c r) = randint 800 1500 r
   \<and> 800 \<le> lifetime_ms (new_Zombie p c r) \<and> lifetime_ms (new_Zombie p c r) \<le> 1500"
  using randint_bounds [of 800 1500 r]
  by (simp add: new_Zombie_def SPAWN_MIN_MS_def SPAWN_MAX_MS_def)

lemma period_mult:
  fixes f :: "nat \<Rightarrow> 'a"
  assumes "\<forall>r. f (r + n) = f r"
  shows "f (r + n * m) = f r"
proof (induction m)
  case 0
  show ?case by simp
next
  case (Suc m)
  have "r + n * Suc m = (r + n * m) + n" by simp
  then have "f (r + n * Suc m) = f ((r + n * m) + n)" by (simp only:)
  also from assms have "\<dots> = f (r + n * m)" by (rule spec)
  finally show ?case using Suc by simp
qed

lemma count_periods:
  fixes f :: "nat \<Rightarrow> 'a"
  assumes "\<forall>r. f (r + n) = f r"
  shows "length (filter (\<lambda>r. f r = v) [0..<n * Suc k])
           = Suc k * length (filter (\<lambda>r. f r = v) [0..<n])"
proof (induction k)
  case 0
  show ?case by simp
next
  case (Suc k)
  let ?j = "n * Suc k"
  have split: "[0..<n * Suc (Suc k)] = [0..<?j] @ map (\<lambda>r. r + ?j) [0..<n]"
  proof -
    have a: "[0..<?j + n] = [0..<?j] @ [?j..<?j + n]"
      by (rule upt_add_eq_append) simp
    have b: "[?j..<?j + n] = map (\<lambda>r. r + ?j) [0..<n]"
      by (simp only: map_add_upt add.commute [of n ?j])
    have e: "n * Suc (Suc k) = ?j + n" by simp
    show ?thesis by (simp only: e a b)
  qed
  have "\<And>r. f (r + ?j) = f r" by (rule period_mult [OF assms])
  then have shifted: "length (filter (\<lambda>r. f r = v) (map (\<lambda>r. r + ?j) [0..<n]))
                   = length (filter (\<lambda>r. f r = v) [0..<n])"
    by (simp only: filter_map comp_def length_map)
  show ?case
    unfolding split using Suc shifted by simp
qed

lemma count_inj:
  fixes f :: "nat \<Rightarrow> 'a"
  assumes "inj_on f {..<n}"
  shows "length (filter (\<lambda>r. f r = v) [0..<n]) = (if v \<in> f ` {..<n} then 1 else 0)"
proof -
  let ?S = "filter (\<lambda>r. f r = v) [0..<n]"
  have d: "distinct ?S" by simp
  have s: "set ?S = {r. r < n \<and> f r = v}" by auto
  from distinct_card [OF d] have l: "length ?S = card (set ?S)" by (rule sym)
  show ?thesis
  proof (cases "v \<in> f ` {..<n}")
    case True
    then obtain r0 where r0: "r0 < n" "f r0 = v" by auto
    with assms have "{r. r < n \<and> f r = v} = {r0}"
      by (auto simp: inj_on_def)
    with l s True show ?thesis by simp
  next
    case False
    then have "{r. r < n \<and> f r = v} = {}" by auto
    with l s False show ?thesis by simp
  qed
qed

lemma draw_share_uniform:
  fixes f :: "nat \<Rightarrow> 'a"
  assumes "\<forall>r. f (r + n) = f r" and "inj_on f {..<n}" and "0 < n"
  shows "draw_share f (n * Suc k) v = (if v \<in> f ` {..<n} then 1 / real n else 0)"
proof (cases "v \<in> f ` {..<n}")
  case True
  with count_periods [OF assms(1), of v k] count_inj [OF assms(2), of v]
  have "length (filter (\<lambda>r. f r = v) [0..<n * Suc k]) = Suc k" by simp
  then have "draw_share f (n * Suc k) v = real (Suc k) / (real n * real (Suc k))"
    by (simp only: draw_share_def of_nat_mult)
  also from assms(3) have "\<dots> = 1 / real n" by simp
  finally show ?thesis using True by simp
next
  case False
  with count_periods [OF assms(1), of v k] count_inj [OF assms(2), of v]
  have "length (filter (\<lambda>r. f r = v) [0..<n * Suc k]) = 0" by simp
  then have "draw_share f (n * Suc k) v = 0" by (simp add: draw_share_def)
  with False show ?thesis by simp
qed

lemma choice_period: "choice xs (r + length xs) = choice xs r"
  by (simp add: choice_def)

lemma randint_period: "randint a b (r + nat (b - a + 1)) = randint a b r"
  by (simp add: randint_def)

lemma choice_image: "xs \<noteq> [] \<Longrightarrow> choice xs ` {..<length xs} = set xs"
  by (auto simp: choice_def set_conv_nth image_def)

lemma randint_image: "a \<le> b \<Longrightarrow> randint a b ` {..<nat (b - a + 1)} = {a..b}"
proof (rule set_eqI, rule iffI)
  fix v assume ab: "a \<le> b" and "v \<in> randint a b ` {..<nat (b - a + 1)}"
  then obtain r where "v = randint a b r" by blast
  with randint_bounds [OF ab, of r] show "v \<in> {a..b}" by simp
next
  fix v assume ab: "a \<le> b" and v: "v \<in> {a..b}"
  then have lt: "nat (v - a) < nat (b - a + 1)" by simp
  from randint_small [OF ab lt] v have "randint a b (nat (v - a)) = v" by simp
  with lt show "v \<in> randint a b ` {..<nat (b - a + 1)}" by (metis imageI lessThan_iff)
qed

lemma choice_uniform:
  "draw_share (choice SPAWN_POINTS) (length SPAWN_POINTS * Suc k) v
     = (if v \<in> set SPAWN_POINTS then 1 / 12 else 0)"
proof -
  have n: "0 < length SPAWN_POINTS" and l: "real (length SPAWN_POINTS) = 12"
    by (simp_all add: SPAWN_POINTS_distinct)
  have i: "inj_on (choice SPAWN_POINTS) {..<length SPAWN_POINTS}"
    by (rule choice_inj) (simp add: SPAWN_POINTS_distinct)
  have p: "\<forall>r. choice SPAWN_POINTS (r + length SPAWN_POINTS) = choice SPAWN_POINTS r"
    by (simp add: choice_period)
  from draw_share_uniform [OF p i n, of k v]
  show ?thesis by (simp only: choice_image [OF SPAWN_POINTS_nonempty] l)
qed

lemma randint_uniform:
  assumes "a \<le> b"
  shows "draw_share (randint a b) (nat (b - a + 1) * Suc k) v
     = (if a \<le> v \<and> v \<le> b then 1 / real (nat (b - a + 1)) else 0)"
proof -
  from assms have n: "0 < nat (b - a + 1)" by simp
  have p: "\<forall>r. randint a b (r + nat (b - a + 1)) = randint a b r"
    by (simp add: randint_period)
  from draw_share_uniform [OF p randint_inj [OF assms] n, of k v]
  show ?thesis by (simp add: randint_image [OF assms])
qed

lemma lifetime_uniform:
  "draw_share (\<lambda>r. lifetime_ms (new_Zombie p c r)) (701 * Suc k) v
     = (if 800 \<le> v \<and> v \<le> 1500 then 1 / 701 else 0)"
proof -
  have l: "(\<lambda>r. lifetime_ms (new_Zombie p c r)) = randint 800 1500"
    by (rule ext) (simp add: new_Zombie_lifetime)
  from randint_uniform [of 800 1500 k v] show ?thesis unfolding l by simp
qed

lemma gap_uniform:
  "draw_share (randint 220 520) (301 * Suc k) v
     = (if 220 \<le> v \<and> v \<le> 520 then 1 / 301 else 0)"
  using randint_uniform [of 220 520 k v] by simp

lemma spawn_and_release_core:
  "zombie (spawn_step inp g) =
     (if zombie g = None \<and> next_spawn_time g \<le> in_now inp
      then Some (new_Zombie (choice SPAWN_POINTS (in_rand_pos inp)) (in_ctor_ticks inp)
                   (in_rand_life inp))
      else zombie g)
   \<and> (zombie g = None \<longrightarrow> (zombie (frame inp g) \<noteq> None \<longleftrightarrow> next_spawn_time g \<le> in_now inp))
   \<and> (zombie g \<noteq> None \<longrightarrow> (\<forall>z. zombie (frame inp g) = Some z \<longrightarrow>
         (\<exists>z0. zombie (handle_events g (in_events inp)) = Some z0 \<and> z = update (in_now inp) z0)))
   \<and> (zx (new_Zombie (choice SPAWN_POINTS r) c r'), zy (new_Zombie (choice SPAWN_POINTS r) c r'))
        \<in> set SPAWN_POINTS
   \<and> range (choice SPAWN_POINTS) = set SPAWN_POINTS
   \<and> inj_on (choice SPAWN_POINTS) {..<length SPAWN_POINTS}
   \<and> distinct SPAWN_POINTS \<and> 6 \<le> length SPAWN_POINTS
   \<and> 800 \<le> lifetime_ms (new_Zombie p c r') \<and> lifetime_ms (new_Zombie p c r') \<le> 1500
   \<and> range (\<lambda>r. lifetime_ms (new_Zombie p c r)) = {800..1500}
   \<and> inj_on (\<lambda>r. lifetime_ms (new_Zombie p c r)) {..<701}
   \<and> (zombie (spawn_step inp (handle_events g (in_events inp))) = Some z
        \<and> state (update (in_now inp) z) = Dead \<longrightarrow>
        zombie (frame inp g) = None
        \<and> next_spawn_time (frame inp g) = in_now inp + randint 220 520 (in_rand_gap inp))
   \<and> 220 \<le> randint 220 520 r \<and> randint 220 520 r \<le> 520
   \<and> range (randint 220 520) = {220..520}"
proof -
  have p1: "zombie g = None \<longrightarrow> (zombie (frame inp g) \<noteq> None \<longleftrightarrow> next_spawn_time g \<le> in_now inp)"
    using frame_from_empty [of g inp] by simp
  have p2: "zombie g \<noteq> None \<longrightarrow> (\<forall>z. zombie (frame inp g) = Some z \<longrightarrow>
         (\<exists>z0. zombie (handle_events g (in_events inp)) = Some z0 \<and> z = update (in_now inp) z0))"
  proof (intro impI allI)
    fix z assume ne: "zombie g \<noteq> None" and fz: "zombie (frame inp g) = Some z"
    from ne have "zombie (handle_events g (in_events inp)) \<noteq> None"
      by (rule handle_events_owned)
    then have "spawn_step inp (handle_events g (in_events inp)) = handle_events g (in_events inp)"
      by (simp add: spawn_step_def)
    with fz show "\<exists>z0. zombie (handle_events g (in_events inp)) = Some z0 \<and> z = update (in_now inp) z0"
      by (auto simp: frame_def update_step_def Let_def split: option.splits if_splits)
  qed
  have p3: "(zx (new_Zombie (choice SPAWN_POINTS r) c r'), zy (new_Zombie (choice SPAWN_POINTS r) c r'))
        \<in> set SPAWN_POINTS"
    using choice_mem [OF SPAWN_POINTS_nonempty, of r] by (simp add: new_Zombie_def)
  have p4: "range (choice SPAWN_POINTS) = set SPAWN_POINTS"
    by (rule choice_range [OF SPAWN_POINTS_nonempty])
  have p5: "inj_on (choice SPAWN_POINTS) {..<length SPAWN_POINTS}"
    by (rule choice_inj) (simp add: SPAWN_POINTS_distinct)
  have p6: "distinct SPAWN_POINTS \<and> 6 \<le> length SPAWN_POINTS"
    using SPAWN_POINTS_distinct by simp
  have l: "(\<lambda>r. lifetime_ms (new_Zombie p c r)) = randint 800 1500"
    by (rule ext) (simp add: new_Zombie_lifetime)
  have p7: "range (\<lambda>r. lifetime_ms (new_Zombie p c r)) = {800..1500}"
    unfolding l by (rule randint_range) simp
  have p8: "inj_on (\<lambda>r. lifetime_ms (new_Zombie p c r)) {..<701}"
    unfolding l using randint_inj [of 800 1500] by simp
  have p9: "range (randint 220 520) = {220..520}"
    by (rule randint_range) simp
  from spawn_step_zombie [of inp g] p1 p2 p3 p4 p5 p6 new_Zombie_lifetime [of p c r'] p7 p8
    frame_releases_dead [of inp g z] randint_bounds [of 220 520 r] p9
  show ?thesis by simp
qed

text \<open>
  Claim C7. The spawn step creates an entity exactly when the slot is empty and \<open>now\<close>
  has reached \<open>next_spawn_time\<close>, and an iteration that starts with an empty slot ends
  with an entity exactly then, while one that starts with an entity only carries that
  entity on. The position is a member of \<open>SPAWN_POINTS\<close>, a list of 12 distinct points;
  the lifetime lies in [800, 1500]. Both are uniform: over the draws below any multiple
  of the size of the range, each of the 12 points is the position on exactly 1/12 of
  them, each lifetime of the interval on exactly 1/701 of them, and nothing else is
  ever chosen. An entity that \<open>update\<close> drives to Dead is released in that iteration and
  \<open>next_spawn_time\<close> becomes \<open>now\<close> plus a gap drawn the same way from [220, 520], each
  gap on 1/301 of the draws.
\<close>

theorem spawn_and_release:
  "zombie (spawn_step inp g) =
     (if zombie g = None \<and> next_spawn_time g \<le> in_now inp
      then Some (new_Zombie (choice SPAWN_POINTS (in_rand_pos inp)) (in_ctor_ticks inp)
                   (in_rand_life inp))
      else zombie g)
   \<and> (zombie g = None \<longrightarrow> (zombie (frame inp g) \<noteq> None \<longleftrightarrow> next_spawn_time g \<le> in_now inp))
   \<and> (zombie g \<noteq> None \<longrightarrow> (\<forall>z. zombie (frame inp g) = Some z \<longrightarrow>
         (\<exists>z0. zombie (handle_events g (in_events inp)) = Some z0 \<and> z = update (in_now inp) z0)))
   \<and> (zx (new_Zombie (choice SPAWN_POINTS r) c r'), zy (new_Zombie (choice SPAWN_POINTS r) c r'))
        \<in> set SPAWN_POINTS
   \<and> range (choice SPAWN_POINTS) = set SPAWN_POINTS
   \<and> inj_on (choice SPAWN_POINTS) {..<length SPAWN_POINTS}
   \<and> distinct SPAWN_POINTS \<and> 6 \<le> length SPAWN_POINTS
   \<and> 800 \<le> lifetime_ms (new_Zombie p c r') \<and> lifetime_ms (new_Zombie p c r') \<le> 1500
   \<and> range (\<lambda>r. lifetime_ms (new_Zombie p c r)) = {800..1500}
   \<and> inj_on (\<lambda>r. lifetime_ms (new_Zombie p c r)) {..<701}
   \<and> (zombie (spawn_step inp (handle_events g (in_events inp))) = Some z
        \<and> state (update (in_now inp) z) = Dead \<longrightarrow>
        zombie (frame inp g) = None
        \<and> next_spawn_time (frame inp g) = in_now inp + randint 220 520 (in_rand_gap inp))
   \<and> 220 \<le> randint 220 520 r \<and> randint 220 520 r \<le> 520
   \<and> range (randint 220 520) = {220..520}
   \<and> draw_share (\<lambda>r. (zx (new_Zombie (choice SPAWN_POINTS r) c r'),
                          zy (new_Zombie (choice SPAWN_POINTS r) c r')))
        (length SPAWN_POINTS * Suc k) v
       = (if v \<in> set SPAWN_POINTS then 1 / 12 else 0)
   \<and> draw_share (\<lambda>r. lifetime_ms (new_Zombie p c r)) (701 * Suc k) l
       = (if 800 \<le> l \<and> l \<le> 1500 then 1 / 701 else 0)
   \<and> draw_share (randint 220 520) (301 * Suc k) l
       = (if 220 \<le> l \<and> l \<le> 520 then 1 / 301 else 0)"
proof -
  have pos: "(\<lambda>r. (zx (new_Zombie (choice SPAWN_POINTS r) c r'),
                   zy (new_Zombie (choice SPAWN_POINTS r) c r'))) = choice SPAWN_POINTS"
    by (rule ext) (simp add: new_Zombie_def)
  from spawn_and_release_core [of inp g r c r' p z]
    choice_uniform [of k v] lifetime_uniform [of p c k l] gap_uniform [of k l]
  show ?thesis unfolding pos by (elim conjE) (intro conjI; assumption)
qed

theorem spawn_and_release_witness:
  "zombie (spawn_step (quiet_frame 0) (init_game False)) = Some z_demo
   \<and> zombie (frame (quiet_frame 1220) g_dying) = None
   \<and> next_spawn_time (frame (quiet_frame 1220) g_dying) = 1440
   \<and> lifetime_ms z_demo = 1000
   \<and> (zx z_demo, zy z_demo) \<in> set SPAWN_POINTS
   \<and> draw_share (\<lambda>r. lifetime_ms (new_Zombie (150, 160) 0 r)) 701 1000 = 1 / 701
   \<and> draw_share (\<lambda>r. lifetime_ms (new_Zombie (150, 160) 0 r)) 1402 1501 = 0"
proof -
  have h: "zombie (spawn_step (quiet_frame 1220) (handle_events g_dying (in_events (quiet_frame 1220))))
             = Some z_dying
           \<and> state (update (in_now (quiet_frame 1220)) z_dying) = Dead"
    by (simp add: quiet_frame_def g_dying_def handle_events_def spawn_step_def update_z_dying)
  have e: "zombie (init_game False) = None \<and> next_spawn_time (init_game False) \<le> in_now (quiet_frame 0)"
    by (simp add: init_game_def quiet_frame_def)
  have n: "new_Zombie (choice SPAWN_POINTS (in_rand_pos (quiet_frame 0)))
             (in_ctor_ticks (quiet_frame 0)) (in_rand_life (quiet_frame 0)) = z_demo"
    by (simp add: quiet_frame_def z_demo_def choice_def SPAWN_POINTS_def)
  have g: "in_now (quiet_frame 1220) + randint 220 520 (in_rand_gap (quiet_frame 1220)) = 1440"
    by (simp add: quiet_frame_def randint_def)
  have c: "new_Zombie (choice SPAWN_POINTS 0) 0 200 = z_demo"
    by (simp add: z_demo_def choice_def SPAWN_POINTS_def)
  from spawn_and_release [of "quiet_frame 0" "init_game False" 0 0 200 "(150, 160)" z_dying 0 "(150, 160)" 1000]
  have a: "zombie (spawn_step (quiet_frame 0) (init_game False)) = Some z_demo"
    and b: "(zx z_demo, zy z_demo) \<in> set SPAWN_POINTS"
    using e n c by simp_all
  from spawn_and_release [of "quiet_frame 1220" g_dying 0 0 200 "(150, 160)" z_dying 0 "(150, 160)" 1000] h g
  have d: "zombie (frame (quiet_frame 1220) g_dying) = None
     \<and> next_spawn_time (frame (quiet_frame 1220) g_dying) = 1440"
    by simp
  from spawn_and_release [where p = "(150, 160)" and c = 0 and k = 0 and l = 1000]
  have u: "draw_share (\<lambda>r. lifetime_ms (new_Zombie (150, 160) 0 r)) 701 1000 = 1 / 701"
    by simp
  from spawn_and_release [where p = "(150, 160)" and c = 0 and k = 1 and l = 1501]
  have v: "draw_share (\<lambda>r. lifetime_ms (new_Zombie (150, 160) 0 r)) 1402 1501 = 0"
    by simp
  from a b d u v z_demo_sel(3) show ?thesis by simp
qed

section \<open>Clock readings within an iteration\<close>

lemma forget_times_eq:
  "forget_times za = forget_times zb \<longleftrightarrow>
     zx za = zx zb \<and> zy za = zy zb \<and> radius za = radius zb \<and> lifetime_ms za = lifetime_ms zb
     \<and> state za = state zb \<and> hit_registered za = hit_registered zb"
  by (cases za; cases zb) (auto simp: forget_times_def)

lemma forget_game_times_eq:
  "forget_game_times ga = forget_game_times gb \<longleftrightarrow>
     hits ga = hits gb \<and> misses ga = misses gb \<and> next_spawn_time ga = next_spawn_time gb
     \<and> running ga = running gb \<and> is_muted ga = is_muted gb
     \<and> sound_supported ga = sound_supported gb
     \<and> map_option forget_times (zombie ga) = map_option forget_times (zombie gb)"
  by (cases ga; cases gb) (auto simp: forget_game_times_def)

lemma clock_twins_refl: "clock_twins now g g"
  by (simp add: clock_twins_def)

lemma clock_twins_forget: "clock_twins now ga gb \<Longrightarrow> forget_game_times ga = forget_game_times gb"
  by (auto simp: clock_twins_def)

lemma update_stamped_after: "stamped_after now z \<Longrightarrow> update now z = z"
  by (auto simp: stamped_after_def update_def SPAWN_ANIM_MS_def DESPAWN_ANIM_MS_def)

lemma hit_test_forget: "forget_times za = forget_times zb \<Longrightarrow> hit_test za p = hit_test zb p"
  by (simp add: forget_times_eq hit_test_def)

lemma is_clickable_forget: "forget_times za = forget_times zb \<Longrightarrow> is_clickable za = is_clickable zb"
  by (simp add: forget_times_eq is_clickable_def)

lemma handle_event_twins_same:
  assumes "fst a = fst b" and "now \<le> snd a" and "now \<le> snd b"
  shows "clock_twins now (handle_event g a) (handle_event g b)"
proof (cases "\<exists>p z. fst a = MOUSEBUTTONDOWN 1 p \<and> zombie g = Some z \<and> is_clickable z \<and> hit_test z p")
  case True
  then obtain p z where e: "fst a = MOUSEBUTTONDOWN 1 p" and z: "zombie g = Some z"
    and c: "is_clickable z \<and> hit_test z p" by blast
  from e z c assms(1) have ha: "handle_event g a = g\<lparr>zombie := Some (register_hit (snd a) z), hits := hits g + 1\<rparr>"
    and hb: "handle_event g b = g\<lparr>zombie := Some (register_hit (snd b) z), hits := hits g + 1\<rparr>"
    by (simp_all add: handle_event_def)
  show ?thesis
    unfolding ha hb clock_twins_def
    using assms(2,3)
    by (simp add: forget_game_times_eq forget_times_eq register_hit_def stamped_after_def)
next
  case False
  with assms(1) have "handle_event g a = handle_event g b"
    by (auto simp: handle_event_def split: event.split option.split)
  then show ?thesis by (simp add: clock_twins_refl)
qed

lemma handle_event_twins_diff:
  assumes fg: "forget_game_times ga = forget_game_times gb"
    and za: "zombie ga = Some za" and zb: "zombie gb = Some zb"
    and sa: "stamped_after now za" and sb: "stamped_after now zb"
    and ev: "fst a = fst b" and ca: "now \<le> snd a" and cb: "now \<le> snd b"
  shows "clock_twins now (handle_event ga a) (handle_event gb b)"
proof -
  from fg za zb have fz: "forget_times za = forget_times zb"
    by (simp add: forget_game_times_eq)
  from fg have flds: "hits ga = hits gb" "misses ga = misses gb" "next_spawn_time ga = next_spawn_time gb"
     "running ga = running gb" "is_muted ga = is_muted gb" "sound_supported ga = sound_supported gb"
    by (simp_all add: forget_game_times_eq)
  from fz have st: "state za = state zb" by (simp add: forget_times_eq)
  note cl = is_clickable_forget [OF fz]
  show ?thesis
  proof (cases "fst a")
    case QUIT
    with ev have "fst b = QUIT" by simp
    with QUIT za zb fz flds sa sb show ?thesis
      by (simp add: handle_event_def clock_twins_def forget_game_times_eq)
  next
    case (KEYDOWN k)
    with ev have "fst b = KEYDOWN k" by simp
    with KEYDOWN za zb fz flds sa sb show ?thesis
      by (simp add: handle_event_def clock_twins_def forget_game_times_eq)
  next
    case OTHER_EVENT
    with ev have "fst b = OTHER_EVENT" by simp
    with OTHER_EVENT za zb fz flds sa sb show ?thesis
      by (simp add: handle_event_def clock_twins_def forget_game_times_eq)
  next
    case (MOUSEBUTTONDOWN button p)
    note ht = hit_test_forget [OF fz, of p]
    from MOUSEBUTTONDOWN ev have fb: "fst b = MOUSEBUTTONDOWN button p" by simp
    note fa = MOUSEBUTTONDOWN
    show ?thesis
    proof (cases "button = 1 \<and> is_clickable za \<and> hit_test za p")
      case True
      with fa fb za zb cl ht
      have ha: "handle_event ga a = ga\<lparr>zombie := Some (register_hit (snd a) za), hits := hits ga + 1\<rparr>"
        and hb: "handle_event gb b = gb\<lparr>zombie := Some (register_hit (snd b) zb), hits := hits gb + 1\<rparr>"
        by (simp_all add: handle_event_def)
      from fz have "forget_times (register_hit (snd a) za) = forget_times (register_hit (snd b) zb)"
        by (simp add: forget_times_eq register_hit_def)
      with flds ca cb show ?thesis
        unfolding ha hb clock_twins_def
        by (simp add: forget_game_times_eq register_hit_def stamped_after_def)
    next
      case False
      with fa fb za zb cl ht st
      have "zombie (handle_event ga a) = Some za \<and> zombie (handle_event gb b) = Some zb
        \<and> forget_game_times (handle_event ga a) = forget_game_times (handle_event gb b)"
        using flds fz by (auto simp: handle_event_def forget_game_times_eq)
      with sa sb show ?thesis by (simp add: clock_twins_def)
    qed
  qed
qed

lemma handle_event_twins:
  assumes "clock_twins now ga gb" and "fst a = fst b" and "now \<le> snd a" and "now \<le> snd b"
  shows "clock_twins now (handle_event ga a) (handle_event gb b)"
proof (cases "ga = gb")
  case True
  with handle_event_twins_same [OF assms(2,3,4), of gb] show ?thesis by simp
next
  case False
  with assms(1) obtain za zb where fg: "forget_game_times ga = forget_game_times gb"
    and za: "zombie ga = Some za" and zb: "zombie gb = Some zb"
    and sa: "stamped_after now za" and sb: "stamped_after now zb"
    by (auto simp: clock_twins_def split: option.splits)
  from handle_event_twins_diff [OF fg za zb sa sb assms(2,3,4)] show ?thesis .
qed

lemma handle_events_twins:
  assumes "map fst evsa = map fst evsb"
    and "list_all (\<lambda>et. now \<le> snd et) evsa" and "list_all (\<lambda>et. now \<le> snd et) evsb"
    and "clock_twins now ga gb"
  shows "clock_twins now (handle_events ga evsa) (handle_events gb evsb)"
  using assms unfolding handle_events_def
proof (induction evsa arbitrary: evsb ga gb)
  case Nil
  then show ?case by simp
next
  case (Cons a evsa)
  from Cons.prems(1) obtain b evsb' where eb: "evsb = b # evsb'" and ab: "fst a = fst b"
    and rest: "map fst evsa = map fst evsb'" by (cases evsb) auto
  from Cons.prems(2) have ca: "now \<le> snd a" and la: "list_all (\<lambda>et. now \<le> snd et) evsa" by simp_all
  from Cons.prems(3) eb have cb: "now \<le> snd b" and lb: "list_all (\<lambda>et. now \<le> snd et) evsb'" by simp_all
  from handle_event_twins [OF Cons.prems(4) ab ca cb]
  have "clock_twins now (handle_event ga a) (handle_event gb b)" .
  from Cons.IH [OF rest la lb this] eb show ?case by simp
qed

lemma spawn_step_twins:
  assumes "clock_twins (in_now a) ga gb" and "same_but_clock a b"
    and "in_now a \<le> in_ctor_ticks a" and "in_now a \<le> in_ctor_ticks b"
  shows "clock_twins (in_now a) (spawn_step a ga) (spawn_step b gb)"
proof (cases "ga = gb")
  case True
  show ?thesis
  proof (cases "zombie gb = None \<and> next_spawn_time gb \<le> in_now a")
    case spawn: True
    with True assms(2,3,4) show ?thesis
      by (simp add: spawn_step_def same_but_clock_def clock_twins_def forget_game_times_eq
            forget_times_eq new_Zombie_def stamped_after_def)
  next
    case False
    with True assms(2) have "spawn_step a ga = gb \<and> spawn_step b gb = gb"
      by (auto simp: spawn_step_def same_but_clock_def)
    then show ?thesis by (simp add: clock_twins_refl)
  qed
next
  case False
  with assms(1) obtain za zb where za: "zombie ga = Some za" and zb: "zombie gb = Some zb"
    by (auto simp: clock_twins_def split: option.splits)
  then have "spawn_step a ga = ga \<and> spawn_step b gb = gb" by (simp add: spawn_step_def)
  with assms(1) show ?thesis by simp
qed

lemma update_step_twins:
  assumes "clock_twins (in_now a) ga gb" and "same_but_clock a b"
  shows "forget_game_times (update_step a ga) = forget_game_times (update_step b gb)"
proof (cases "ga = gb")
  case True
  with assms(2) have "update_step a ga = update_step b gb"
    by (simp add: update_step_def same_but_clock_def Let_def split: option.split)
  then show ?thesis by simp
next
  case False
  with assms(1) obtain za zb where fg: "forget_game_times ga = forget_game_times gb"
    and za: "zombie ga = Some za" and zb: "zombie gb = Some zb"
    and sa: "stamped_after (in_now a) za" and sb: "stamped_after (in_now a) zb"
    by (auto simp: clock_twins_def split: option.splits)
  from assms(2) have n: "in_now b = in_now a" by (simp add: same_but_clock_def)
  from sa have ua: "update (in_now a) za = za" and da: "state za \<noteq> Dead"
    by (auto simp: update_stamped_after stamped_after_def)
  from sb have ub: "update (in_now a) zb = zb" and db: "state zb \<noteq> Dead"
    by (auto simp: update_stamped_after stamped_after_def)
  from za ua da have "update_step a ga = ga\<lparr>zombie := Some za\<rparr>"
    by (simp add: update_step_def Let_def)
  moreover from zb ub db n have "update_step b gb = gb\<lparr>zombie := Some zb\<rparr>"
    by (simp add: update_step_def Let_def)
  ultimately show ?thesis using fg za zb by (simp add: forget_game_times_eq)
qed

lemma frame_twins:
  assumes s: "same_but_clock a b" and ca: "clock_not_back a" and cb: "clock_not_back b"
  shows "forget_game_times (frame a g) = forget_game_times (frame b g)"
proof -
  from s have n: "in_now b = in_now a" and ev: "map fst (in_events a) = map fst (in_events b)"
    by (simp_all add: same_but_clock_def)
  from ca have la: "list_all (\<lambda>et. in_now a \<le> snd et) (in_events a)" and ta: "in_now a \<le> in_ctor_ticks a"
    by (simp_all add: clock_not_back_def)
  from cb n have lb: "list_all (\<lambda>et. in_now a \<le> snd et) (in_events b)" and tb: "in_now a \<le> in_ctor_ticks b"
    by (simp_all add: clock_not_back_def)
  from handle_events_twins [OF ev la lb clock_twins_refl]
  have "clock_twins (in_now a) (handle_events g (in_events a)) (handle_events g (in_events b))" .
  from spawn_step_twins [OF this s ta tb]
  have "clock_twins (in_now a) (spawn_step a (handle_events g (in_events a)))
          (spawn_step b (handle_events g (in_events b)))" .
  from update_step_twins [OF this s] show ?thesis by (simp add: frame_def)
qed

lemma frame_same_inputs:
  assumes "same_but_clock a b" and "in_events a = in_events b" and "in_ctor_ticks a = in_ctor_ticks b"
  shows "frame a g = frame b g"
  using assms
  by (simp add: frame_def spawn_step_def update_step_def same_but_clock_def Let_def
        split: option.split)

lemma update_step_clock_free:
  "update_step (inp\<lparr>in_events := evs, in_ctor_ticks := c\<rparr>) g = update_step inp g"
  by (simp add: update_step_def Let_def split: option.split)

text \<open>
  Claim C9, as stated, fails: the constructor and \<open>register_hit\<close> read the clock
  themselves. Two first iterations with the same clock value 0 at the top, the same
  (empty) event queue and the same draws end in different states when the constructor
  reads 0 in one and 5 in the other: the new entity's \<open>spawn_time\<close> is 5, not 0. And in
  an iteration at 50 a hit handled when the clock reads 57 sets \<open>state_time\<close> to 57.
\<close>

theorem clock_requery_counterexample:
  "same_but_clock (quiet_frame 0) late_ctor_frame
   \<and> frame (quiet_frame 0) (init_game False) \<noteq> frame late_ctor_frame (init_game False)
   \<and> in_now late_ctor_frame = 0
   \<and> map_option spawn_time (zombie (frame late_ctor_frame (init_game False))) = Some 5
   \<and> in_now click_frame = 50
   \<and> map_option state_time (zombie (frame click_frame g_demo)) = Some 57"
  by (simp add: same_but_clock_def late_ctor_frame_def click_frame_def quiet_frame_def
        frame_def handle_events_def handle_event_def spawn_step_def update_step_def Let_def
        init_game_def g_demo_def z_demo_def new_Zombie_def update_def register_hit_def
        is_clickable_def hit_test_def choice_def SPAWN_POINTS_def SPAWN_ANIM_MS_def
        DESPAWN_ANIM_MS_def ZOMBIE_BASE_RADIUS_def)

text \<open>
  Claim C9, amended. In one iteration, the transitions of \<open>update\<close> use the clock value
  read at the top of the iteration (the update step does not depend on the later
  readings), while the constructor's \<open>spawn_time\<close> and \<open>register_hit\<close>'s \<open>state_time\<close> are
  the clock values read inside those calls. Two runs of an iteration from the same
  state that agree on the clock value at the top, the event queue and the random draws,
  and whose later readings are not before that value, end in states that are equal but
  for the stored timestamps of the owned entity; when the later readings agree too, the
  states are identical.
\<close>

theorem frame_time_consistency:
  assumes "same_but_clock a b" and "clock_not_back a" and "clock_not_back b"
  shows "forget_game_times (frame a g) = forget_game_times (frame b g)
    \<and> (in_events a = in_events b \<and> in_ctor_ticks a = in_ctor_ticks b \<longrightarrow> frame a g = frame b g)
    \<and> update_step (a\<lparr>in_events := evs, in_ctor_ticks := c\<rparr>) g = update_step a g
    \<and> spawn_time (new_Zombie p c r) = c \<and> state_time (new_Zombie p c r) = c
    \<and> state_time (register_hit c z) = c"
  using frame_twins [OF assms, of g] frame_same_inputs [OF assms(1), of g]
    update_step_clock_free [where inp = a and evs = evs and c = c and g = g]
  by (simp add: new_Zombie_def register_hit_def)

theorem frame_time_consistency_witness:
  "same_but_clock (quiet_frame 0) late_ctor_frame
   \<and> clock_not_back (quiet_frame 0) \<and> clock_not_back late_ctor_frame
   \<and> forget_game_times (frame (quiet_frame 0) (init_game False))
       = forget_game_times (frame late_ctor_frame (init_game False))"
proof -
  have s: "same_but_clock (quiet_frame 0) late_ctor_frame"
    by (simp add: same_but_clock_def late_ctor_frame_def quiet_frame_def)
  have ca: "clock_not_back (quiet_frame 0)"
    by (simp add: clock_not_back_def quiet_frame_def)
  have cb: "clock_not_back late_ctor_frame"
    by (simp add: clock_not_back_def late_ctor_frame_def quiet_frame_def)
  from s ca cb frame_time_consistency [OF s ca cb, of "init_game False"]
  show ?thesis by simp
qed

section \<open>The order of the states in the life of an entity\<close>

lemma is_clickable_not_dead: "is_clickable z \<Longrightarrow> state z \<noteq> Dead"
  by (auto simp: is_clickable_def)

lemma handle_event_rank:
  assumes "zombie g = Some z"
  shows "\<exists>z1. zombie (handle_event g et) = Some z1 \<and> rank (state z) \<le> rank (state z1)"
proof -
  from handle_event_step [of g et] show ?thesis
  proof
    assume "hits (handle_event g et) = hits g \<and> zombie (handle_event g et) = zombie g"
    with assms show ?thesis by simp
  next
    assume "\<exists>z. zombie g = Some z \<and> is_clickable z \<and> hits (handle_event g et) = hits g + 1
          \<and> misses (handle_event g et) = misses g
          \<and> zombie (handle_event g et) = Some (register_hit (snd et) z)"
    with assms have c: "is_clickable z"
      and r: "zombie (handle_event g et) = Some (register_hit (snd et) z)" by auto
    from c have "state z \<noteq> Dead" by (rule is_clickable_not_dead)
    from rank_register_hit [OF this, of "snd et"] r show ?thesis by simp
  qed
qed

lemma handle_events_rank:
  "zombie g = Some z \<Longrightarrow>
     \<exists>z1. zombie (handle_events g evs) = Some z1 \<and> rank (state z) \<le> rank (state z1)"
  unfolding handle_events_def
proof (induction evs arbitrary: g z)
  case Nil
  then show ?case by simp
next
  case (Cons et evs)
  from handle_event_rank [OF Cons.prems, of et]
  obtain z1 where a: "zombie (handle_event g et) = Some z1" and b: "rank (state z) \<le> rank (state z1)"
    by blast
  from Cons.IH [OF a] obtain z2 where "zombie (foldl handle_event (handle_event g et) evs) = Some z2"
    and "rank (state z1) \<le> rank (state z2)" by blast
  with b show ?case by auto
qed

lemma frame_rank:
  assumes "zombie g = Some z"
  shows "case zombie (frame inp g) of None \<Rightarrow> True | Some z' \<Rightarrow> rank (state z) \<le> rank (state z')"
proof -
  from handle_events_rank [OF assms, of "in_events inp"]
  obtain z1 where a: "zombie (handle_events g (in_events inp)) = Some z1"
    and b: "rank (state z) \<le> rank (state z1)" by blast
  from a have c: "spawn_step inp (handle_events g (in_events inp)) = handle_events g (in_events inp)"
    by (simp add: spawn_step_def)
  from b rank_update [of z1 "in_now inp"]
  have "rank (state z) \<le> rank (state (update (in_now inp) z1))" by simp
  with a show ?thesis
    by (simp add: frame_def c update_step_def Let_def)
qed

lemma backward_needs_dead:
  "rank (state (apply_op op z)) < rank (state z) \<Longrightarrow> state z = Dead \<and> (\<exists>c. op = RegisterHit c)"
proof (cases op)
  case (Update now)
  assume "rank (state (apply_op op z)) < rank (state z)"
  with Update rank_update [of z now] show ?thesis by simp
next
  case (RegisterHit c)
  assume lt: "rank (state (apply_op op z)) < rank (state z)"
  have "state z = Dead"
  proof (rule ccontr)
    assume "state z \<noteq> Dead"
    from rank_register_hit [OF this, of c] lt RegisterHit show False by simp
  qed
  with RegisterHit show ?thesis by simp
qed

text \<open>
  Claim C3. Within the life of an entity, that is, under any interleaving of \<open>update\<close>
  and \<open>register_hit\<close> calls none of which is a \<open>register_hit\<close> on an entity that has
  already reached Dead, the state after a longer sequence of calls is never earlier, in
  the order Spawning, Alive, Despawning, Dead, than the state after a prefix of it.
  Dead is entered from Despawning only, a hit puts the entity in Despawning, and an
  Alive entity that \<open>update\<close> moves goes to Despawning. The loop keeps to the life of its
  entity: it calls \<open>register_hit\<close> on clickable entities only, and the entity it owns
  after an iteration is never in an earlier state than the one it owned before.
\<close>

theorem state_never_backward:
  assumes "no_hit_on_dead (ops1 @ ops2) z"
  shows "rank (state (apply_ops ops1 z)) \<le> rank (state (apply_ops (ops1 @ ops2) z))
    \<and> (\<forall>op z'. state (apply_op op z') = Dead \<and> state z' \<noteq> Dead \<longrightarrow> state z' = Despawning)
    \<and> (\<forall>c z'. state (register_hit c z') = Despawning)
    \<and> (\<forall>now z'. state z' = Alive \<and> state (update now z') \<noteq> Alive
          \<longrightarrow> state (update now z') = Despawning)
    \<and> (\<forall>g inp z'. zombie g = Some z' \<longrightarrow>
          (case zombie (frame inp g) of None \<Rightarrow> True
           | Some z'' \<Rightarrow> rank (state z') \<le> rank (state z'')))"
proof -
  from assms have "no_hit_on_dead ops2 (apply_ops ops1 z)"
    by (simp add: no_hit_on_dead_append)
  then have "rank (state (apply_ops ops1 z)) \<le> rank (state (apply_ops (ops1 @ ops2) z))"
    using rank_apply_ops by (simp add: apply_ops_append)
  moreover have "\<forall>op z'. state (apply_op op z') = Dead \<and> state z' \<noteq> Dead \<longrightarrow> state z' = Despawning"
    using dead_only_from_despawning by blast
  moreover have "\<forall>c z'. state (register_hit c z') = Despawning"
    by (simp add: register_hit_def)
  moreover have "\<forall>now z'. state z' = Alive \<and> state (update now z') \<noteq> Alive
          \<longrightarrow> state (update now z') = Despawning"
    by (simp add: update_def)
  moreover have "\<forall>g inp z'. zombie g = Some z' \<longrightarrow>
          (case zombie (frame inp g) of None \<Rightarrow> True
           | Some z'' \<Rightarrow> rank (state z') \<le> rank (state z''))"
    using frame_rank by blast
  ultimately show ?thesis by blast
qed

theorem state_never_backward_witness:
  "no_hit_on_dead ([Update 180, RegisterHit 200] @ [Update 300, Update 420]) z_demo
   \<and> rank (state (apply_ops [Update 180, RegisterHit 200] z_demo)) = 2
   \<and> rank (state (apply_ops ([Update 180, RegisterHit 200] @ [Update 300, Update 420]) z_demo)) = 3"
proof -
  have h: "no_hit_on_dead ([Update 180, RegisterHit 200] @ [Update 300, Update 420]) z_demo"
    by (simp add: z_demo_def new_Zombie_def update_def register_hit_def randint_def
        SPAWN_MIN_MS_def SPAWN_MAX_MS_def SPAWN_ANIM_MS_def DESPAWN_ANIM_MS_def)
  have a: "rank (state (apply_ops [Update 180, RegisterHit 200] z_demo)) = 2"
    by (simp add: z_demo_def new_Zombie_def update_def register_hit_def randint_def
        SPAWN_MIN_MS_def SPAWN_MAX_MS_def SPAWN_ANIM_MS_def DESPAWN_ANIM_MS_def)
  from state_never_backward [OF h, THEN conjunct1] a
  have "2 \<le> rank (state (apply_ops ([Update 180, RegisterHit 200] @ [Update 300, Update 420]) z_demo))"
    by simp
  moreover have "rank (state (apply_ops ([Update 180, RegisterHit 200] @ [Update 300, Update 420]) z_demo)) = 3"
    by (simp add: z_demo_def new_Zombie_def update_def register_hit_def randint_def
        SPAWN_MIN_MS_def SPAWN_MAX_MS_def SPAWN_ANIM_MS_def DESPAWN_ANIM_MS_def)
  ultimately show ?thesis using h a by simp
qed

end
